theory Spec2Isabelle
  imports Main "HOL-Library.Word"
begin

unbundle bit_operations_syntax

section \<open>The ncstream frame reader of siphon.cdmr.ncstream\<close>

subsection \<open>Bytes, the file object and the errors\<close>

type_synonym byte = "8 word"
type_synonym bytes = "byte list"

text \<open>
  The exceptions the module can raise, by their Python class. \<open>TypeError\<close> is what
  \<open>ord\<close> raises on the empty read at the end of the source (the truncated stream);
  \<open>OverflowError\<close> is what \<open>read\<close> raises for a count beyond the interpreter's
  index type; \<open>AssertionError\<close> is the failed length check after inflating;
  \<open>NotImplementedError\<close> the unknown compression or data type; \<open>ValueError\<close> comes
  from numpy (\<open>frombuffer\<close>, \<open>fromstring\<close>, \<open>reshape\<close>); \<open>RuntimeError\<close> carries
  the message of an error frame; \<open>DecodeError\<close> and \<open>ZlibError\<close> are the failures
  of the protobuf parser and of \<open>zlib.decompress\<close>.
\<close>

datatype error =
    TypeError
  | OverflowError
  | KeyError
  | IndexError
  | ValueError
  | AssertionError
  | NotImplementedError
  | AttributeError
  | RuntimeError string
  | DecodeError
  | ZlibError

text \<open>
  The file object is read sequentially and never seeked: it is modelled by the bytes
  not yet read. Python's \<open>fobj.read(n)\<close> returns at most \<open>n\<close> bytes, fewer when
  the source ends, and the empty bytes object at the end of the source. The count is
  converted to the interpreter's signed index type (64 bits are assumed, as is numpy's
  index type below): a count of \<open>2 ^ 63\<close> or more raises OverflowError.
\<close>

type_synonym fobj = "byte list"

definition ssize_t_max :: nat where
  "ssize_t_max = 2 ^ 63 - 1"

definition fobj_read :: "nat \<Rightarrow> fobj \<Rightarrow> error + (bytes \<times> fobj)" where
  "fobj_read n f =
     (if ssize_t_max < n then Inl OverflowError else Inr (take n f, drop n f))"

definition MAGIC_HEADER :: bytes where "MAGIC_HEADER = [0xad, 0xec, 0xce, 0xda]"
definition MAGIC_DATA :: bytes where "MAGIC_DATA = [0xab, 0xec, 0xce, 0xba]"
definition MAGIC_VDATA :: bytes where "MAGIC_VDATA = [0xab, 0xef, 0xfe, 0xba]"
definition MAGIC_VEND :: bytes where "MAGIC_VEND = [0xed, 0xef, 0xfe, 0xda]"
definition MAGIC_ERR :: bytes where "MAGIC_ERR = [0xab, 0xad, 0xba, 0xda]"

subsection \<open>read_var_int, read_magic, read_block\<close>

text \<open>
  The loop of \<open>read_var_int\<close>, with its two variables \<open>val\<close> and \<open>shift\<close>.
  \<open>file_obj.read(1)\<close> on an exhausted source is \<open>b''\<close> and \<open>ord\<close> raises
  TypeError; otherwise it is the next byte. Python integers are unbounded.
\<close>

fun read_var_int_loop :: "nat \<Rightarrow> nat \<Rightarrow> fobj \<Rightarrow> error + (nat \<times> fobj)" where
  "read_var_int_loop val shift [] = Inl TypeError"
| "read_var_int_loop val shift (b # f) =
     (let next_val = unat b;
          val' = (push_bit shift (next_val AND 0x7F)) OR val;
          shift' = shift + 7
      in if next_val AND 0x80 = 0 then Inr (val', f)
         else read_var_int_loop val' shift' f)"

definition read_var_int :: "fobj \<Rightarrow> error + (nat \<times> fobj)" where
  "read_var_int file_obj = read_var_int_loop 0 0 file_obj"

text \<open>
  \<open>read_magic\<close> is \<open>fobj.read(4)\<close>; the count 4 is within the bound, so the error
  branch of the read is never taken and the function returns the bytes read.
\<close>

definition read_magic :: "fobj \<Rightarrow> bytes \<times> fobj" where
  "read_magic f = (case fobj_read 4 f of Inr r \<Rightarrow> r | Inl e \<Rightarrow> ([], f))"

lemma read_magic_eq: "read_magic f = (take 4 f, drop 4 f)"
  by (simp add: read_magic_def fobj_read_def ssize_t_max_def)

definition read_block :: "fobj \<Rightarrow> error + (bytes \<times> fobj)" where
  "read_block f =
     (case read_var_int f of
        Inl e \<Rightarrow> Inl e
      | Inr (num, f') \<Rightarrow> fobj_read num f')"

text \<open>
  The base-128 encoding the specification's round trip speaks of (the module has no
  write path): seven bits per byte, least significant group first, the high bit set on
  every byte but the last.
\<close>

function spec_varint_encode :: "nat \<Rightarrow> bytes" where
  "spec_varint_encode n =
     (if n < 128 then [of_nat n]
      else of_nat (n mod 128 + 128) # spec_varint_encode (n div 128))"
  by pat_completeness auto
termination
  by (relation "measure (\<lambda>n. n)") auto

declare spec_varint_encode.simps [simp del]

text \<open>The value the specification assigns to a run of varint bytes.\<close>

definition spec_varint_value :: "bytes \<Rightarrow> nat" where
  "spec_varint_value bs =
     foldr (OR) (map (\<lambda>i. push_bit (7 * i) (unat (bs ! i) AND 0x7F)) [0..<length bs]) 0"



subsection \<open>The schema messages the module reads\<close>

text \<open>
  The protobuf binding \<open>ncStream_pb2\<close> is generated code outside the module. Of its
  messages only the fields the module reads are kept. The enumerations are datatypes,
  with one further constructor for a code the module does not name. (\<open>CHAR\<close> and
  \<open>INT\<close> are written \<open>DT_CHAR\<close> and \<open>DT_INT\<close>: the plain names are taken by
  HOL's syntax.)
\<close>

datatype DataType =
    DT_CHAR | BYTE | SHORT | DT_INT | LONG | FLOAT | DOUBLE | STRING
  | STRUCTURE | SEQUENCE | ENUM1 | ENUM2 | ENUM4 | OPAQUE
  | OtherDataType nat

datatype Compress = NONE | DEFLATE | OtherCompress nat

record Range =
  range_size :: nat

record Data =
  dataType :: DataType
  compress :: Compress
  bigend :: bool
  vdata :: bool
  section_range :: "Range list"
  uncompressedSize :: nat

record StructureData =
  sd_data :: bytes
  rowLength :: nat


subsection \<open>numpy, as far as the module uses it\<close>

text \<open>
  A dtype is modelled by its descriptor: the byte order, the kind, the size of one item
  in bytes and, for the one-field record type that \<open>make_array\<close> builds for a
  structure, the name of that field. The byte order is the order in which the bytes of
  one item are read. Only numbers of more than one byte have one: for one-byte items,
  byte strings, objects and records of raw bytes numpy keeps no order (its attribute
  \<open>byteorder\<close> shows \<open>|\<close>), whatever order is asked for. \<open>NativeOrder\<close> is the order
  of the machine the module runs on. (For the other two the attribute shows \<open>=\<close> when
  the order is the machine's own and \<open>>\<close> or \<open><\<close> when it is not.)
\<close>

datatype kind = KindS | KindInt | KindUInt | KindFloat | KindObject | KindVoid

datatype byte_order = NotApplicable | NativeOrder | BigEndian | LittleEndian

record dtype =
  byteorder :: byte_order
  kind :: kind
  itemsize :: nat
  field_name :: "string option"

text \<open>The type strings that occur in the module's tables, after an optional order character.\<close>

definition np_typestr :: "string \<Rightarrow> (kind \<times> nat) option" where
  "np_typestr s =
     (if s = ''S1'' then Some (KindS, 1)
      else if s = ''b'' then Some (KindInt, 1)
      else if s = ''B'' then Some (KindUInt, 1)
      else if s = ''i2'' then Some (KindInt, 2)
      else if s = ''i4'' then Some (KindInt, 4)
      else if s = ''i8'' then Some (KindInt, 8)
      else if s = ''u2'' then Some (KindUInt, 2)
      else if s = ''u4'' then Some (KindUInt, 4)
      else if s = ''u8'' then Some (KindUInt, 8)
      else if s = ''f4'' then Some (KindFloat, 4)
      else if s = ''f8'' then Some (KindFloat, 8)
      else if s = ''O'' then Some (KindObject, 8)
      else None)"

text \<open>The items that have a byte order, and the order an order character stands for.\<close>

definition has_byteorder :: "kind \<Rightarrow> nat \<Rightarrow> bool" where
  "has_byteorder k n = (k \<in> {KindInt, KindUInt, KindFloat} \<and> 1 < n)"

definition order_of_char :: "char \<Rightarrow> byte_order" where
  "order_of_char c =
     (if c = CHR ''>'' then BigEndian
      else if c = CHR ''<'' then LittleEndian
      else NativeOrder)"

definition np_dtype :: "string \<Rightarrow> error + dtype" where
  "np_dtype s =
     (let (order, code) =
        (case s of
           [] \<Rightarrow> (CHR ''='', s)
         | c # r \<Rightarrow> if c \<in> set ''=<>|'' then (c, r) else (CHR ''='', s))
      in case np_typestr code of
           None \<Rightarrow> Inl TypeError
         | Some (k, n) \<Rightarrow>
             Inr \<lparr>byteorder = (if has_byteorder k n then order_of_char order
                                else NotApplicable),
                  kind = k, itemsize = n, field_name = None\<rparr>)"

text \<open>
  \<open>dt.newbyteorder(c)\<close>: a dtype without a byte order is returned as it is, and the
  character \<open>|\<close> changes nothing; otherwise the order becomes the one asked for. The
  module passes \<open>>\<close> and \<open><\<close> only; of the other spellings numpy accepts only \<open>=\<close>
  and \<open>|\<close> are modelled.
\<close>

definition newbyteorder :: "char \<Rightarrow> dtype \<Rightarrow> dtype" where
  "newbyteorder new_order dt =
     (if byteorder dt = NotApplicable then dt
      else if new_order = CHR ''>'' then dt\<lparr>byteorder := BigEndian\<rparr>
      else if new_order = CHR ''<'' then dt\<lparr>byteorder := LittleEndian\<rparr>
      else if new_order = CHR ''='' then dt\<lparr>byteorder := NativeOrder\<rparr>
      else dt)"

text \<open>
  \<open>np.dtype([(name, np.void, n)])\<close>: a record of one field of \<open>n\<close> raw bytes, under
  the name given. Neither the field nor the record has a byte order.
\<close>

definition np_dtype_void_field :: "string \<Rightarrow> nat \<Rightarrow> dtype" where
  "np_dtype_void_field name n =
     \<lparr>byteorder = NotApplicable, kind = KindVoid, itemsize = n, field_name = Some name\<rparr>"

text \<open>
  An item of an array: an integer for the integer kinds of one byte or read in a stated
  order (big or little), and the raw bytes otherwise (text, floating point, void and
  object items, and numbers in the machine's own order, are not interpreted here).
\<close>

datatype item = IntItem int | RawItem bytes

record ndarray =
  arr_dtype :: dtype
  arr_shape :: "nat list"
  arr_items :: "item list"

definition be_value :: "bytes \<Rightarrow> nat" where
  "be_value bs = foldl (\<lambda>a b. a * 256 + unat b) 0 bs"

definition decode_item :: "dtype \<Rightarrow> bytes \<Rightarrow> item" where
  "decode_item dt bs =
     (if kind dt \<in> {KindInt, KindUInt}
         \<and> (itemsize dt = 1 \<or> byteorder dt = BigEndian \<or> byteorder dt = LittleEndian)
      then let u = (if byteorder dt = LittleEndian then be_value (rev bs) else be_value bs)
           in if kind dt = KindInt \<and> 2 ^ (8 * length bs - 1) \<le> u
              then IntItem (int u - 2 ^ (8 * length bs))
              else IntItem (int u)
      else RawItem bs)"

definition chunks :: "nat \<Rightarrow> 'a list \<Rightarrow> 'a list list" where
  "chunks n xs = map (\<lambda>i. take n (drop (i * n) xs)) [0..<length xs div n]"

text \<open>
  \<open>np.frombuffer(buf, dtype=dt)\<close>: refused (ValueError) for an object dtype, for items
  of size zero and for a buffer whose size is no multiple of the item size; otherwise a
  one-dimensional array of the items in buffer order.
\<close>

definition np_frombuffer :: "bytes \<Rightarrow> dtype \<Rightarrow> error + ndarray" where
  "np_frombuffer buf dt =
     (if kind dt = KindObject then Inl ValueError
      else if itemsize dt = 0 then Inl ValueError
      else if length buf mod itemsize dt \<noteq> 0 then Inl ValueError
      else Inr \<lparr>arr_dtype = dt,
                arr_shape = [length buf div itemsize dt],
                arr_items = map (decode_item dt) (chunks (itemsize dt) buf)\<rparr>)"

text \<open>
  \<open>np.fromstring(data, dtype=dt, count=n)\<close> with \<open>n\<close> given: ValueError when the data
  are shorter than \<open>n\<close> items, otherwise the first \<open>n\<close> items.
\<close>

definition np_fromstring :: "bytes \<Rightarrow> dtype \<Rightarrow> nat \<Rightarrow> error + ndarray" where
  "np_fromstring data dt n =
     (if kind dt = KindObject then Inl ValueError
      else if itemsize dt = 0 then Inl ValueError
      else if length data < n * itemsize dt then Inl ValueError
      else Inr \<lparr>arr_dtype = dt,
                arr_shape = [n],
                arr_items = map (decode_item dt) (chunks (itemsize dt) (take (n * itemsize dt) data))\<rparr>)"

text \<open>
  \<open>a.reshape(*shape)\<close>, for the shapes the module passes (tuples of sizes, none
  negative). numpy refuses with ValueError a shape of more dimensions than it supports
  (32 in the numpy versions of the module's time), a size beyond its signed 64-bit
  index type, a shape whose size, multiplied up from the left, overflows that type, and
  a shape whose size is not the number of items of the array.
\<close>

definition NPY_MAXDIMS :: nat where
  "NPY_MAXDIMS = 32"

definition npy_intp_max :: nat where
  "npy_intp_max = 2 ^ 63 - 1"

text \<open>The running product of the sizes; \<open>None\<close> is the overflow.\<close>

fun reshape_size :: "nat \<Rightarrow> nat list \<Rightarrow> nat option" where
  "reshape_size s_known [] = Some s_known"
| "reshape_size s_known (d # ds) =
     (if npy_intp_max < s_known * d then None else reshape_size (s_known * d) ds)"

definition np_reshape :: "ndarray \<Rightarrow> nat list \<Rightarrow> error + ndarray" where
  "np_reshape a new_shape =
     (if NPY_MAXDIMS < length new_shape then Inl ValueError
      else if list_ex (\<lambda>d. npy_intp_max < d) new_shape then Inl ValueError
      else (case reshape_size 1 new_shape of
              None \<Rightarrow> Inl ValueError
            | Some s_known \<Rightarrow>
                if s_known = length (arr_items a) then Inr (a\<lparr>arr_shape := new_shape\<rparr>)
                else Inl ValueError))"




subsection \<open>data_type_to_numpy\<close>

definition dtypeLookup :: "DataType \<rightharpoonup> string" where
  "dtypeLookup =
     [DT_CHAR \<mapsto> ''S1'', BYTE \<mapsto> ''b'', SHORT \<mapsto> ''i2'',
      DT_INT \<mapsto> ''i4'', LONG \<mapsto> ''i8'', FLOAT \<mapsto> ''f4'',
      DOUBLE \<mapsto> ''f8'', STRING \<mapsto> ''O'',
      ENUM1 \<mapsto> ''B'', ENUM2 \<mapsto> ''u2'', ENUM4 \<mapsto> ''u4'',
      OPAQUE \<mapsto> ''O'']"

text \<open>\<open>s.replace(old, new)\<close> for patterns of one character.\<close>

definition str_replace :: "char \<Rightarrow> char \<Rightarrow> string \<Rightarrow> string" where
  "str_replace old new s = map (\<lambda>c. if c = old then new else c) s"

definition data_type_to_numpy :: "DataType \<Rightarrow> bool \<Rightarrow> error + dtype" where
  "data_type_to_numpy datatype unsigned' =
     (case dtypeLookup datatype of
        None \<Rightarrow> Inl KeyError
      | Some basic_type \<Rightarrow>
          if datatype \<in> {STRING, OPAQUE} then np_dtype basic_type
          else np_dtype (''='' @ (if unsigned' then str_replace CHR ''i'' CHR ''u'' basic_type
                                  else basic_type)))"


subsection \<open>make_array\<close>

text \<open>
  The second argument of \<open>make_array\<close> is either bytes or a StructureData message.
  Reading \<open>.data\<close> of bytes raises AttributeError; handing a message to
  \<open>zlib.decompress\<close> or \<open>bytearray\<close> raises TypeError. \<open>zlib.decompress\<close> is a
  parameter: \<open>None\<close> is its \<open>zlib.error\<close>.
\<close>

datatype buf = BytesBuf bytes | StructBuf StructureData

text \<open>The element type and the buffer (first block of the function body).\<close>

definition make_array_dtype :: "Data \<Rightarrow> buf \<Rightarrow> error + (buf \<times> dtype)" where
  "make_array_dtype data_header buf =
     (if dataType data_header = STRUCTURE then
        (case buf of
           BytesBuf _ \<Rightarrow> Inl AttributeError
         | StructBuf struct_header \<Rightarrow>
             let endian = (if bigend data_header then CHR ''>'' else CHR ''<'');
                 dt = np_dtype_void_field [endian] (rowLength struct_header)
             in Inr (BytesBuf (sd_data struct_header), newbyteorder endian dt))
      else
        (case data_type_to_numpy (dataType data_header) False of
           Inl e \<Rightarrow> Inl e
         | Inr dt \<Rightarrow> let endian = CHR ''>'' in Inr (buf, newbyteorder endian dt)))"

text \<open>The shape: \<open>None\<close> under \<open>vdata\<close>, else the tuple of the range sizes.\<close>

definition make_array_shape :: "Data \<Rightarrow> nat list option" where
  "make_array_shape data_header =
     (if vdata data_header then None
      else Some (map range_size (section_range data_header)))"

text \<open>Decompression.\<close>

definition make_array_decompress ::
  "(bytes \<Rightarrow> bytes option) \<Rightarrow> Data \<Rightarrow> buf \<Rightarrow> error + buf" where
  "make_array_decompress zlib_decompress data_header buf =
     (if compress data_header = DEFLATE then
        (if dataType data_header \<noteq> STRUCTURE then
           (case buf of
              StructBuf _ \<Rightarrow> Inl TypeError
            | BytesBuf b \<Rightarrow>
                (case zlib_decompress b of
                   None \<Rightarrow> Inl ZlibError
                 | Some b' \<Rightarrow>
                     if length b' = uncompressedSize data_header then Inr (BytesBuf b')
                     else Inl AssertionError))
         else Inr buf)
      else if compress data_header \<noteq> NONE then Inl NotImplementedError
      else Inr buf)"

text \<open>
  The whole function. \<open>if shape:\<close> is false for \<open>None\<close> and for the empty tuple: only a
  non-empty shape reshapes.
\<close>

definition make_array ::
  "(bytes \<Rightarrow> bytes option) \<Rightarrow> Data \<Rightarrow> buf \<Rightarrow> error + ndarray" where
  "make_array zlib_decompress data_header buf =
     (case make_array_dtype data_header buf of
        Inl e \<Rightarrow> Inl e
      | Inr (buf1, dt) \<Rightarrow>
          let shape = make_array_shape data_header in
          (case make_array_decompress zlib_decompress data_header buf1 of
             Inl e \<Rightarrow> Inl e
           | Inr buf2 \<Rightarrow>
               (case buf2 of
                  StructBuf _ \<Rightarrow> Inl TypeError
                | BytesBuf b \<Rightarrow>
                    (case np_frombuffer b dt of
                       Inl e \<Rightarrow> Inl e
                     | Inr ret \<Rightarrow>
                         (case shape of
                            None \<Rightarrow> Inr ret
                          | Some s \<Rightarrow> if s = [] then Inr ret else np_reshape ret s)))))"

subsection \<open>unpack_attribute\<close>

datatype AttributeType =
    ATTR_STRING | ATTR_BYTE | ATTR_SHORT | ATTR_INT | ATTR_LONG | ATTR_FLOAT | ATTR_DOUBLE
  | OtherAttributeType nat

text \<open>
  \<open>sdata\<close> is a sequence of items of some type: the characters of a text in the
  specification's data model, the strings of a repeated field in the protobuf schema.
\<close>

record 's Attribute =
  att_name :: string
  att_type :: AttributeType
  att_len :: nat
  att_data :: bytes
  att_sdata :: "'s list"
  att_unsigned :: bool

text \<open>The table \<open>_attrConverters\<close>, by the type strings its dtypes are built from.\<close>

definition attrConverters :: "AttributeType \<rightharpoonup> string" where
  "attrConverters =
     [ATTR_BYTE \<mapsto> ''>b'', ATTR_SHORT \<mapsto> ''>i2'', ATTR_INT \<mapsto> ''>i4'',
      ATTR_LONG \<mapsto> ''>i8'', ATTR_FLOAT \<mapsto> ''>f4'', ATTR_DOUBLE \<mapsto> ''>f8'']"

datatype 's attr_value =
    NoneValue
  | SdataValue "'s list"
  | SdataItem 's
  | ArrayValue ndarray
  | ScalarValue item

text \<open>\<open>val[0]\<close> on the values \<open>val\<close> can hold.\<close>

definition index0 :: "'s attr_value \<Rightarrow> error + 's attr_value" where
  "index0 val =
     (case val of
        NoneValue \<Rightarrow> Inl TypeError
      | SdataValue s \<Rightarrow> (case s of [] \<Rightarrow> Inl IndexError | x # _ \<Rightarrow> Inr (SdataItem x))
      | ArrayValue a \<Rightarrow>
          (case arr_items a of [] \<Rightarrow> Inl IndexError | x # _ \<Rightarrow> Inr (ScalarValue x))
      | SdataItem _ \<Rightarrow> Inl TypeError
      | ScalarValue _ \<Rightarrow> Inl TypeError)"

text \<open>
  The warning logged for an unsigned attribute does not reach the returned value and is
  left out.
\<close>

definition unpack_attribute :: "'s Attribute \<Rightarrow> error + (string \<times> 's attr_value)" where
  "unpack_attribute att =
     (case (if att_len att = 0 then Inr NoneValue
            else if att_type att = ATTR_STRING then Inr (SdataValue (att_sdata att))
            else (case attrConverters (att_type att) of
                    None \<Rightarrow> Inl KeyError
                  | Some ts \<Rightarrow>
                      (case np_dtype ts of
                         Inl e \<Rightarrow> Inl e
                       | Inr dt \<Rightarrow>
                           (case np_fromstring (att_data att) dt (att_len att) of
                              Inl e \<Rightarrow> Inl e
                            | Inr a \<Rightarrow> Inr (ArrayValue a))))) of
        Inl e \<Rightarrow> Inl e
      | Inr val \<Rightarrow>
          if att_len att = 1
          then (case index0 val of Inl e \<Rightarrow> Inl e | Inr v \<Rightarrow> Inr (att_name att, v))
          else Inr (att_name att, val))"


subsection \<open>read_ncstream_messages\<close>

text \<open>
  What lies outside the module: the protobuf messages (a freshly constructed message
  and \<open>ParseFromString\<close>, which replaces the content of the message it is called on and
  whose \<open>None\<close> is a DecodeError), the UTF-8 codec with \<open>errors='ignore'\<close>, and
  \<open>zlib.decompress\<close>. The content of a Header is never read by the module and is a
  type parameter, like the text type of the codec. So is the value of \<open>np.array\<close> on
  the list of the per-block arrays of the \<open>vdata\<close> path: numpy builds one array of two
  dimensions when the blocks hold the same number of items and an array of objects (in
  later versions a ValueError) when they do not, with an element type of its own choice.
\<close>

record ('h, 's, 'v) collaborators =
  Header_new :: 'h
  Header_ParseFromString :: "bytes \<Rightarrow> 'h option"
  Data_ParseFromString :: "bytes \<Rightarrow> Data option"
  StructureData_new :: StructureData
  StructureData_ParseFromString :: "bytes \<Rightarrow> StructureData option"
  Error_ParseFromString :: "bytes \<Rightarrow> string option"
  decode_utf8_ignore :: "bytes \<Rightarrow> 's"
  zlib_decompress :: "bytes \<Rightarrow> bytes option"
  np_array :: "ndarray list \<Rightarrow> error + 'v"

text \<open>
  The elements of the list \<open>messages\<close>: a Header object, the array of \<open>make_array\<close>,
  the array that \<open>np.array\<close> builds of the per-block arrays of the \<open>vdata\<close> path,
  the object arrays of decoded strings and of opaque blocks, and the pair
  \<open>(data, blocks)\<close> of a sequence.
\<close>

datatype ('h, 's, 'v) message =
    HeaderMsg 'h
  | ArrayMsg ndarray
  | VlenArrayMsg 'v
  | StringArrayMsg "'s list"
  | OpaqueArrayMsg "bytes list"
  | StructureBlockMsg Data "StructureData list"

text \<open>The two \<open>log.error\<close> calls of the loop (debug records are below the logger's level).\<close>

datatype log_event = Unknown_magic bytes | Bad_magic_for_struct_seq_data

text \<open>\<open>[read_block(fobj) for _ in range(num_obj)]\<close>\<close>

fun read_blocks :: "nat \<Rightarrow> fobj \<Rightarrow> error + (bytes list \<times> fobj)" where
  "read_blocks 0 f = Inr ([], f)"
| "read_blocks (Suc n) f =
     (case read_block f of
        Inl e \<Rightarrow> Inl e
      | Inr (b, f1) \<Rightarrow>
          (case read_blocks n f1 of
             Inl e \<Rightarrow> Inl e
           | Inr (bs, f2) \<Rightarrow> Inr (b # bs, f2)))"

text \<open>\<open>[np.frombuffer(b, dtype=dt) for b in blocks]\<close>\<close>

fun frombuffer_all :: "bytes list \<Rightarrow> dtype \<Rightarrow> error + ndarray list" where
  "frombuffer_all [] dt = Inr []"
| "frombuffer_all (b # bs) dt =
     (case np_frombuffer b dt of
        Inl e \<Rightarrow> Inl e
      | Inr a \<Rightarrow>
          (case frombuffer_all bs dt of
             Inl e \<Rightarrow> Inl e
           | Inr as \<Rightarrow> Inr (a # as)))"

text \<open>Every successful read leaves no more of the source than it found.\<close>

lemma fobj_read_length: "fobj_read n f = Inr (b, f') \<Longrightarrow> length f' \<le> length f"
  by (auto simp: fobj_read_def split: if_splits)

lemma read_magic_rest_length: "length (snd (read_magic f)) \<le> length f"
  by (simp add: read_magic_eq)

lemma read_magic_length: "fst (read_magic f) \<noteq> [] \<Longrightarrow> length (snd (read_magic f)) < length f"
  by (cases f) (simp_all add: read_magic_eq)

lemma read_var_int_loop_length:
  "read_var_int_loop val shift f = Inr (n, f') \<Longrightarrow> length f' < length f"
proof (induction f arbitrary: val shift)
  case Nil
  then show ?case by simp
next
  case (Cons a f)
  show ?case
  proof (cases "unat a AND 0x80 = 0")
    case True
    with Cons.prems show ?thesis by (simp add: Let_def)
  next
    case False
    with Cons.prems have "read_var_int_loop ((push_bit shift (unat a AND 0x7F)) OR val) (shift + 7) f = Inr (n, f')"
      by (simp add: Let_def)
    then have "length f' < length f" by (rule Cons.IH)
    then show ?thesis by simp
  qed
qed

lemma read_block_length: "read_block f = Inr (b, f') \<Longrightarrow> length f' < length f"
  by (auto simp: read_block_def read_var_int_def fobj_read_def
           split: sum.splits if_splits dest!: read_var_int_loop_length)

lemma read_blocks_length: "read_blocks n f = Inr (bs, f') \<Longrightarrow> length f' \<le> length f"
proof (induction n arbitrary: f bs)
  case 0
  then show ?case by simp
next
  case (Suc n)
  then show ?case
    by (fastforce split: sum.splits prod.splits dest: read_block_length)
qed

text \<open>
  The sub-loop of a sequence, entered with the magic just read. Each round appends a
  fresh StructureData to \<open>blocks\<close> and parses the next block into \<open>blocks[0]\<close>.
\<close>

function read_sequence ::
  "('h, 's, 'v) collaborators \<Rightarrow> StructureData list \<Rightarrow> bytes \<Rightarrow> fobj \<Rightarrow> log_event list
     \<Rightarrow> error + (StructureData list \<times> fobj \<times> log_event list)" where
  "read_sequence C blocks magic f lg =
     (if magic = MAGIC_VEND then Inr (blocks, f, lg)
      else
        let lg1 = (if magic = MAGIC_VDATA then lg @ [Bad_magic_for_struct_seq_data] else lg);
            blocks1 = blocks @ [StructureData_new C]
        in (case read_block f of
              Inl e \<Rightarrow> Inl e
            | Inr r \<Rightarrow>
                (case StructureData_ParseFromString C (fst r) of
                   None \<Rightarrow> Inl DecodeError
                 | Some sd \<Rightarrow>
                     read_sequence C (blocks1[0 := sd])
                       (fst (read_magic (snd r))) (snd (read_magic (snd r))) lg1)))"
  by pat_completeness auto
termination
proof (relation "measure (\<lambda>(C, blocks, magic, f, lg). length f)")
  show "wf (measure (\<lambda>(C, blocks, magic, f, lg). length f))" by simp
next
  fix C :: "('h, 's, 'v) collaborators" and blocks magic f lg lg1 blocks1 r sd
  assume "read_block f = Inr r"
  then have "length (snd r) < length f"
    by (cases r) (simp add: read_block_length)
  moreover have "length (snd (read_magic (snd r))) \<le> length (snd r)"
    by (rule read_magic_rest_length)
  ultimately show "((C, blocks1[0 := sd], fst (read_magic (snd r)), snd (read_magic (snd r)), lg1),
                    (C, blocks, magic, f, lg))
                   \<in> measure (\<lambda>(C, blocks, magic, f, lg). length f)"
    by simp
qed

declare read_sequence.simps [simp del]


lemma read_sequence_length:
  "read_sequence C blocks magic f lg = Inr (blocks', f', lg') \<Longrightarrow> length f' \<le> length f"
proof (induction C blocks magic f lg rule: read_sequence.induct)
  case (1 C blocks magic f lg)
  show ?case
  proof (cases "magic = MAGIC_VEND")
    case True
    with "1.prems" show ?thesis by (simp add: read_sequence.simps)
  next
    case False
    from "1.prems" False obtain r sd where
      r: "read_block f = Inr r" and
      sd: "StructureData_ParseFromString C (fst r) = Some sd" and
      rec: "read_sequence C ((blocks @ [StructureData_new C])[0 := sd])
              (fst (read_magic (snd r))) (snd (read_magic (snd r)))
              (if magic = MAGIC_VDATA then lg @ [Bad_magic_for_struct_seq_data] else lg)
            = Inr (blocks', f', lg')"
      by (subst (asm) read_sequence.simps)
         (auto simp: Let_def split: sum.splits option.splits)
    from "1.IH" [OF False refl refl r sd rec]
    have "length f' \<le> length (snd (read_magic (snd r)))" .
    also have "\<dots> \<le> length (snd r)"
      by (rule read_magic_rest_length)
    also from r have "\<dots> \<le> length f"
      by (cases r) (auto dest: read_block_length)
    finally show ?thesis .
  qed
qed

text \<open>
  The branches of a data chunk, by data type, each from the source just behind the Data
  message to the appended element. First strings, opaque blocks and \<open>vdata\<close>. The
  text decoding cannot fail and is written where its result is used. Under \<open>vdata\<close>
  every block goes through \<open>np.frombuffer\<close>, which refuses an object dtype: a string or
  opaque type under \<open>vdata\<close> fails as soon as there is a block.
\<close>

definition read_vlen_data ::
  "('h, 's, 'v) collaborators \<Rightarrow> Data \<Rightarrow> fobj \<Rightarrow> ('h, 's, 'v) message list \<Rightarrow> log_event list
     \<Rightarrow> error + (('h, 's, 'v) message list \<times> fobj \<times> log_event list)" where
  "read_vlen_data C data f messages lg =
     (case read_var_int f of
        Inl e \<Rightarrow> Inl e
      | Inr (num_obj, f1) \<Rightarrow>
     (case read_blocks num_obj f1 of
        Inl e \<Rightarrow> Inl e
      | Inr (blocks, f2) \<Rightarrow>
     (case data_type_to_numpy (dataType data) False of
        Inl e \<Rightarrow> Inl e
      | Inr dt0 \<Rightarrow>
          let dt = newbyteorder CHR ''>'' dt0 in
          if vdata data then
            (case frombuffer_all blocks dt of
               Inl e \<Rightarrow> Inl e
             | Inr arrays \<Rightarrow>
                 (case np_array C arrays of
                    Inl e \<Rightarrow> Inl e
                  | Inr arr \<Rightarrow> Inr (messages @ [VlenArrayMsg arr], f2, lg)))
          else if dataType data = STRING then
            Inr (messages @ [StringArrayMsg (map (decode_utf8_ignore C) blocks)], f2, lg)
          else Inr (messages @ [OpaqueArrayMsg blocks], f2, lg))))"

text \<open>Array data of a type in the lookup table.\<close>

definition read_array_data ::
  "('h, 's, 'v) collaborators \<Rightarrow> Data \<Rightarrow> fobj \<Rightarrow> ('h, 's, 'v) message list \<Rightarrow> log_event list
     \<Rightarrow> error + (('h, 's, 'v) message list \<times> fobj \<times> log_event list)" where
  "read_array_data C data f messages lg =
     (case read_block f of
        Inl e \<Rightarrow> Inl e
      | Inr (bin_data, f1) \<Rightarrow>
          (case make_array (zlib_decompress C) data (BytesBuf bin_data) of
             Inl e \<Rightarrow> Inl e
           | Inr data_block \<Rightarrow> Inr (messages @ [ArrayMsg data_block], f1, lg)))"

text \<open>A structure.\<close>

definition read_structure_data ::
  "('h, 's, 'v) collaborators \<Rightarrow> Data \<Rightarrow> fobj \<Rightarrow> ('h, 's, 'v) message list \<Rightarrow> log_event list
     \<Rightarrow> error + (('h, 's, 'v) message list \<times> fobj \<times> log_event list)" where
  "read_structure_data C data f messages lg =
     (case read_block f of
        Inl e \<Rightarrow> Inl e
      | Inr (b, f1) \<Rightarrow>
     (case StructureData_ParseFromString C b of
        None \<Rightarrow> Inl DecodeError
      | Some sd \<Rightarrow>
          (case make_array (zlib_decompress C) data (StructBuf sd) of
             Inl e \<Rightarrow> Inl e
           | Inr data_block \<Rightarrow> Inr (messages @ [ArrayMsg data_block], f1, lg))))"

text \<open>A sequence: the sub-loop from the first magic on, then the pair \<open>(data, blocks)\<close>.\<close>

definition read_sequence_data ::
  "('h, 's, 'v) collaborators \<Rightarrow> Data \<Rightarrow> fobj \<Rightarrow> ('h, 's, 'v) message list \<Rightarrow> log_event list
     \<Rightarrow> error + (('h, 's, 'v) message list \<times> fobj \<times> log_event list)" where
  "read_sequence_data C data f messages lg =
     (case read_sequence C [] (fst (read_magic f)) (snd (read_magic f)) lg of
        Inl e \<Rightarrow> Inl e
      | Inr (blocks, f1, lg') \<Rightarrow>
          Inr (messages @ [StructureBlockMsg data blocks], f1, lg'))"

text \<open>The branch for a data chunk, after its magic: the Data message, then its payload.\<close>

definition read_data_chunk ::
  "('h, 's, 'v) collaborators \<Rightarrow> fobj \<Rightarrow> ('h, 's, 'v) message list \<Rightarrow> log_event list
     \<Rightarrow> error + (('h, 's, 'v) message list \<times> fobj \<times> log_event list)" where
  "read_data_chunk C f messages lg =
     (case read_block f of
        Inl e \<Rightarrow> Inl e
      | Inr (b, f1) \<Rightarrow>
     (case Data_ParseFromString C b of
        None \<Rightarrow> Inl DecodeError
      | Some data \<Rightarrow>
          if dataType data \<in> {STRING, OPAQUE} \<or> vdata data then
            read_vlen_data C data f1 messages lg
          else if dtypeLookup (dataType data) \<noteq> None then
            read_array_data C data f1 messages lg
          else if dataType data = STRUCTURE then
            read_structure_data C data f1 messages lg
          else if dataType data = SEQUENCE then
            read_sequence_data C data f1 messages lg
          else Inl NotImplementedError))"

text \<open>
  One round of the outer loop after a non-empty magic. In the header branch the new Header
  is appended and \<open>messages[0].ParseFromString\<close> is looked up before the block is read;
  an element 0 that is no Header has no such attribute. The last branch formats the
  bytes of the magic for the log; bytes are read as Python 3 reads them (a sequence of
  integers), so the formatting cannot fail.
\<close>

definition read_chunk ::
  "('h, 's, 'v) collaborators \<Rightarrow> bytes \<Rightarrow> fobj \<Rightarrow> ('h, 's, 'v) message list \<Rightarrow> log_event list
     \<Rightarrow> error + (('h, 's, 'v) message list \<times> fobj \<times> log_event list)" where
  "read_chunk C magic f messages lg =
     (if magic = MAGIC_HEADER then
        let messages1 = messages @ [HeaderMsg (Header_new C)] in
        (case messages1 ! 0 of
           HeaderMsg _ \<Rightarrow>
             (case read_block f of
                Inl e \<Rightarrow> Inl e
              | Inr (b, f1) \<Rightarrow>
                  (case Header_ParseFromString C b of
                     None \<Rightarrow> Inl DecodeError
                   | Some h \<Rightarrow> Inr (messages1[0 := HeaderMsg h], f1, lg)))
         | _ \<Rightarrow> Inl AttributeError)
      else if magic = MAGIC_DATA then read_data_chunk C f messages lg
      else if magic = MAGIC_ERR then
        (case read_block f of
           Inl e \<Rightarrow> Inl e
         | Inr (b, f1) \<Rightarrow>
             (case Error_ParseFromString C b of
                None \<Rightarrow> Inl DecodeError
              | Some err_message \<Rightarrow> Inl (RuntimeError err_message)))
      else Inr (messages, f, lg @ [Unknown_magic magic]))"

lemma read_vlen_data_length:
  "read_vlen_data C data f messages lg = Inr (messages', f', lg') \<Longrightarrow> length f' \<le> length f"
proof -
  assume H: "read_vlen_data C data f messages lg = Inr (messages', f', lg')"
  then obtain num_obj f1 where v: "read_var_int f = Inr (num_obj, f1)"
    by (cases "read_var_int f") (auto simp: read_vlen_data_def)
  with H obtain blocks f2 where bs: "read_blocks num_obj f1 = Inr (blocks, f2)"
    by (cases "read_blocks num_obj f1") (auto simp: read_vlen_data_def)
  from H v bs have "f' = f2"
    by (auto simp: read_vlen_data_def Let_def split: sum.splits if_splits)
  moreover from v have "length f1 < length f"
    by (simp add: read_var_int_def read_var_int_loop_length)
  moreover from bs have "length f2 \<le> length f1" by (rule read_blocks_length)
  ultimately show ?thesis by simp
qed

lemma read_array_data_length:
  "read_array_data C data f messages lg = Inr (messages', f', lg') \<Longrightarrow> length f' \<le> length f"
  by (auto simp: read_array_data_def split: sum.splits dest!: read_block_length)

lemma read_structure_data_length:
  "read_structure_data C data f messages lg = Inr (messages', f', lg') \<Longrightarrow>
   length f' \<le> length f"
  by (auto simp: read_structure_data_def split: sum.splits option.splits dest!: read_block_length)

lemma read_sequence_data_length:
  "read_sequence_data C data f messages lg = Inr (messages', f', lg') \<Longrightarrow>
   length f' \<le> length f"
proof -
  assume H: "read_sequence_data C data f messages lg = Inr (messages', f', lg')"
  then obtain blocks where
    "read_sequence C [] (fst (read_magic f)) (snd (read_magic f)) lg = Inr (blocks, f', lg')"
    by (auto simp: read_sequence_data_def split: sum.splits)
  then have "length f' \<le> length (snd (read_magic f))" by (rule read_sequence_length)
  also have "\<dots> \<le> length f" by (rule read_magic_rest_length)
  finally show ?thesis .
qed

lemma read_data_chunk_length:
  "read_data_chunk C f messages lg = Inr (messages', f', lg') \<Longrightarrow> length f' \<le> length f"
proof -
  assume H: "read_data_chunk C f messages lg = Inr (messages', f', lg')"
  then obtain b f1 where rb: "read_block f = Inr (b, f1)"
    by (cases "read_block f") (auto simp: read_data_chunk_def)
  with H obtain data where pd: "Data_ParseFromString C b = Some data"
    by (cases "Data_ParseFromString C b") (auto simp: read_data_chunk_def)
  from rb have l: "length f1 < length f" by (rule read_block_length)
  from H rb pd have "length f' \<le> length f1"
    by (auto simp: read_data_chunk_def split: if_splits
          dest: read_vlen_data_length read_array_data_length
                read_structure_data_length read_sequence_data_length)
  with l show ?thesis by simp
qed

lemma read_chunk_length_aux:
  "case read_chunk C magic f messages lg of
     Inl e \<Rightarrow> True
   | Inr (messages', f', lg') \<Rightarrow> length f' \<le> length f"
  unfolding read_chunk_def Let_def
  by (auto split: sum.split option.split prod.split message.split
        dest!: read_block_length read_data_chunk_length)

lemma read_chunk_length:
  "read_chunk C magic f messages lg = Inr (messages', f', lg') \<Longrightarrow> length f' \<le> length f"
  using read_chunk_length_aux [where C = C and magic = magic and f = f and messages = messages and lg = lg]
  by simp

text \<open>
  The outer loop: it ends, returning the list (and the log written), when the magic read
  is empty.
\<close>

function read_ncstream_loop ::
  "('h, 's, 'v) collaborators \<Rightarrow> fobj \<Rightarrow> ('h, 's, 'v) message list \<Rightarrow> log_event list
     \<Rightarrow> error + (('h, 's, 'v) message list \<times> log_event list)" where
  "read_ncstream_loop C f messages lg =
     (if fst (read_magic f) = [] then Inr (messages, lg)
      else
        (case read_chunk C (fst (read_magic f)) (snd (read_magic f)) messages lg of
           Inl e \<Rightarrow> Inl e
         | Inr r \<Rightarrow> read_ncstream_loop C (fst (snd r)) (fst r) (snd (snd r))))"
  by pat_completeness auto
termination
proof (relation "measure (\<lambda>(C, f, messages, lg). length f)")
  show "wf (measure (\<lambda>(C, f, messages, lg). length f))" by simp
next
  fix C :: "('h, 's, 'v) collaborators" and f :: fobj and messages :: "('h, 's, 'v) message list"
    and lg :: "log_event list" and r :: "('h, 's, 'v) message list \<times> fobj \<times> log_event list"
  assume ne: "fst (read_magic f) \<noteq> []"
    and r: "read_chunk C (fst (read_magic f)) (snd (read_magic f)) messages lg = Inr r"
  from r have "length (fst (snd r)) \<le> length (snd (read_magic f))"
    by (cases r) (auto dest: read_chunk_length)
  also from ne have "\<dots> < length f" by (rule read_magic_length)
  finally show "((C, fst (snd r), fst r, snd (snd r)), (C, f, messages, lg))
                 \<in> measure (\<lambda>(C, f, messages, lg). length f)"
    by simp
qed

declare read_ncstream_loop.simps [simp del]

definition read_ncstream_messages ::
  "('h, 's, 'v) collaborators \<Rightarrow> fobj \<Rightarrow> error + (('h, 's, 'v) message list \<times> log_event list)" where
  "read_ncstream_messages C fobj = read_ncstream_loop C fobj [] []"


subsection \<open>A stand-in for the collaborators\<close>

text \<open>
  To run the loop on concrete streams: a Header and a decoded text are the bytes they
  come from, a StructureData has the block as its data and the block's length as its row
  length, every Data block parses to the header given, nothing inflates, and the array
  of a list of arrays is that list.
\<close>

definition example_collaborators ::
  "Data \<Rightarrow> (bytes, bytes, ndarray list) collaborators" where
  "example_collaborators data =
     \<lparr>Header_new = [],
      Header_ParseFromString = Some,
      Data_ParseFromString = (\<lambda>b. Some data),
      StructureData_new = \<lparr>sd_data = [], rowLength = 0\<rparr>,
      StructureData_ParseFromString = (\<lambda>b. Some \<lparr>sd_data = b, rowLength = length b\<rparr>),
      Error_ParseFromString = (\<lambda>b. Some ''server error''),
      decode_utf8_ignore = (\<lambda>b. b),
      zlib_decompress = (\<lambda>b. None),
      np_array = Inr\<rparr>"


subsection \<open>Runs of the outer loop\<close>

text \<open>
  The states the outer loop passes through, a state being the unread source, the list
  \<open>messages\<close> and the log: one step reads a non-empty magic and the chunk behind it
  without an error.
\<close>

inductive loop_reaches ::
  "('h, 's, 'v) collaborators
     \<Rightarrow> fobj \<times> ('h, 's, 'v) message list \<times> log_event list
     \<Rightarrow> fobj \<times> ('h, 's, 'v) message list \<times> log_event list \<Rightarrow> bool"
  for C :: "('h, 's, 'v) collaborators" where
    here: "loop_reaches C s s"
  | chunk: "fst (read_magic f) \<noteq> [] \<Longrightarrow>
            read_chunk C (fst (read_magic f)) (snd (read_magic f)) messages lg
              = Inr (messages1, f1, lg1) \<Longrightarrow>
            loop_reaches C (f1, messages1, lg1) s \<Longrightarrow>
            loop_reaches C (f, messages, lg) s"


subsection \<open>Frames of a sequence, as written by a sender\<close>

text \<open>
  The bytes of a run of frames, each a 4-byte magic and a block written as its varint
  length followed by its bytes.
\<close>

fun spec_frames :: "(bytes \<times> bytes) list \<Rightarrow> bytes" where
  "spec_frames [] = []"
| "spec_frames ((magic, payload) # frames) =
     magic @ spec_varint_encode (length payload) @ payload @ spec_frames frames"

section \<open>Properties\<close>

subsection \<open>Bit arithmetic of the varint loop\<close>

lemma and_127_take_bit: "(x::nat) AND 127 = take_bit 7 x"
  by (simp add: take_bit_eq_mask mask_eq_exp_minus_1)

lemma and_128_bit: "((x::nat) AND 128 = 0) = (\<not> bit x 7)"
  using and_exp_eq_0_iff_not_bit [of x 7] by simp

lemma take_drop_bit7: "take_bit 7 (n::nat) OR push_bit 7 (drop_bit 7 n) = n"
proof -
  have "take_bit 7 n + push_bit 7 (drop_bit 7 n) = take_bit 7 n OR push_bit 7 (drop_bit 7 n)"
    by (rule disjunctive_add) (auto simp: bit_simps)
  then show ?thesis
    using bits_ident [of 7 n] by (simp add: add.commute)
qed

lemma push_take_drop_bit7:
  "push_bit (shift + 7) (drop_bit 7 n) OR (push_bit shift (take_bit 7 n) OR val)
     = push_bit shift (n::nat) OR val"
proof -
  have "push_bit shift n = push_bit shift (take_bit 7 n OR push_bit 7 (drop_bit 7 n))"
    by (simp only: take_drop_bit7)
  also have "\<dots> = push_bit shift (take_bit 7 n) OR push_bit (shift + 7) (drop_bit 7 n)"
    by (simp add: push_bit_or push_bit_push_bit add.commute)
  finally show ?thesis by (simp add: ac_simps)
qed

lemma unat_last_byte: "n < 128 \<Longrightarrow> unat (of_nat n :: byte) = n"
  by (simp add: unat_of_nat)

lemma unat_continuation_byte: "unat (of_nat (n mod 128 + 128) :: byte) = n mod 128 + 128"
proof -
  have "n mod 128 + 128 < 256" by simp
  then show ?thesis by (simp only: unat_of_nat) simp
qed

lemma take_bit7_small: "n < 128 \<Longrightarrow> take_bit 7 (n::nat) = n"
  by (simp add: take_bit_nat_def)

lemma bit7_small: "n < 128 \<Longrightarrow> \<not> bit (n::nat) 7"
  by (simp add: bit_iff_odd)

lemma take_bit7_continuation: "take_bit 7 (n mod 128 + 128 :: nat) = take_bit 7 n"
  by (simp add: take_bit_nat_def)

lemma bit7_continuation: "bit (n mod 128 + 128 :: nat) 7"
proof -
  have "(n mod 128 + 128) div 128 = (1::nat)" by simp
  then show ?thesis by (simp only: bit_iff_odd) simp
qed

lemma bit_unat_byte: "bit (unat (b::byte)) 7 = bit b 7"
  by (simp add: bit_unsigned_iff)

subsection \<open>One step of the loop, and the loop on whole inputs\<close>

lemma read_var_int_loop_step:
  "read_var_int_loop val shift (b # f) =
     (if bit b 7
      then read_var_int_loop (push_bit shift (take_bit 7 (unat b)) OR val) (shift + 7) f
      else Inr (push_bit shift (take_bit 7 (unat b)) OR val, f))"
  by (simp add: Let_def and_127_take_bit and_128_bit bit_unat_byte)

lemma spec_varint_encode_last: "n < 128 \<Longrightarrow> spec_varint_encode n = [of_nat n]"
  by (subst spec_varint_encode.simps) simp

lemma spec_varint_encode_continue:
  "\<not> n < 128 \<Longrightarrow>
   spec_varint_encode n = of_nat (n mod 128 + 128) # spec_varint_encode (n div 128)"
  by (subst spec_varint_encode.simps) simp

lemma read_var_int_loop_encode:
  "read_var_int_loop val shift (spec_varint_encode n @ rest) = Inr (push_bit shift n OR val, rest)"
proof (induction n arbitrary: val shift rule: spec_varint_encode.induct)
  case (1 n)
  show ?case
  proof (cases "n < 128")
    case True
    then show ?thesis
      by (simp add: spec_varint_encode_last read_var_int_loop_step unat_last_byte
            take_bit7_small bit7_small bit_unat_byte [symmetric]
          del: read_var_int_loop.simps)
  next
    case False
    have dr: "n div 128 = drop_bit 7 n" by (simp add: drop_bit_nat_def)
    have "read_var_int_loop val shift (spec_varint_encode n @ rest) =
          read_var_int_loop (push_bit shift (take_bit 7 n) OR val) (shift + 7)
             (spec_varint_encode (n div 128) @ rest)"
      using False
      by (simp add: spec_varint_encode_continue read_var_int_loop_step unat_continuation_byte
            take_bit7_continuation bit7_continuation bit_unat_byte [symmetric]
          del: read_var_int_loop.simps of_nat_add of_nat_numeral)
    also have "\<dots> = Inr (push_bit (shift + 7) (n div 128)
                            OR (push_bit shift (take_bit 7 n) OR val), rest)"
      using False by (rule "1.IH")
    finally show ?thesis by (simp only: dr push_take_drop_bit7)
  qed
qed

lemma foldr_or_acc: "foldr (OR) xs ((a::nat) OR v) = a OR foldr (OR) xs v"
  by (induction xs) (simp_all add: ac_simps)

lemma read_var_int_loop_stop:
  "\<forall>b\<in>set pre. bit b 7 \<Longrightarrow> \<not> bit t 7 \<Longrightarrow>
   read_var_int_loop val shift (pre @ t # rest) =
     Inr (foldr (OR)
            (map (\<lambda>i. push_bit (shift + 7 * i) (unat ((pre @ [t]) ! i) AND 0x7F))
               [0..<Suc (length pre)]) val, rest)"
proof (induction pre arbitrary: val shift)
  case Nil
  then show ?case
    by (simp add: read_var_int_loop_step and_127_take_bit ac_simps del: read_var_int_loop.simps)
next
  case (Cons b pre)
  have idx: "[0..<Suc (Suc (length pre))] = 0 # map Suc [0..<Suc (length pre)]"
    by (simp add: map_Suc_upt upt_conv_Cons del: upt_Suc)
  from Cons.prems have hb: "bit b 7" and hpre: "\<forall>b\<in>set pre. bit b 7" by simp_all
  have step: "read_var_int_loop val shift ((b # pre) @ t # rest) =
        read_var_int_loop (push_bit shift (take_bit 7 (unat b)) OR val) (shift + 7) (pre @ t # rest)"
    using hb by (simp add: read_var_int_loop_step del: read_var_int_loop.simps)
  have ih: "read_var_int_loop (push_bit shift (take_bit 7 (unat b)) OR val) (shift + 7) (pre @ t # rest) =
     Inr (foldr (OR)
            (map (\<lambda>i. push_bit (shift + 7 + 7 * i) (unat ((pre @ [t]) ! i) AND 0x7F))
               [0..<Suc (length pre)]) (push_bit shift (take_bit 7 (unat b)) OR val), rest)"
    by (rule Cons.IH [OF hpre Cons.prems(2)])
  have rhs: "foldr (OR)
            (map (\<lambda>i. push_bit (shift + 7 * i) (unat (((b # pre) @ [t]) ! i) AND 0x7F))
               [0..<Suc (length (b # pre))]) val =
        foldr (OR)
            (map (\<lambda>i. push_bit (shift + 7 + 7 * i) (unat ((pre @ [t]) ! i) AND 0x7F))
               [0..<Suc (length pre)]) (push_bit shift (take_bit 7 (unat b)) OR val)"
    by (simp add: idx o_def foldr_or_acc and_127_take_bit add.assoc del: upt_Suc)
  show ?case by (simp only: step ih rhs)
qed

lemma read_var_int_loop_truncated:
  "\<forall>b\<in>set bs. bit b 7 \<Longrightarrow> read_var_int_loop val shift bs = Inl TypeError"
  by (induction bs arbitrary: val shift)
     (simp_all add: read_var_int_loop_step del: read_var_int_loop.simps(2))

text \<open>
  Claim C9. The varint reader ORs the low seven bits of the byte at index \<open>i\<close>, shifted
  left by \<open>7 * i\<close>, into the accumulator and stops at the first byte whose high bit is
  clear, leaving the source just behind that byte; decoding the base-128 encoding of any
  natural number (so of 0, 1, 127, 128, 300, 16384 and 2097151) gives the number back;
  and when the source ends before a byte with a clear high bit is seen the call fails
  (with the TypeError that \<open>ord\<close> raises on the empty read).
\<close>

theorem read_var_int_decodes:
  "((\<forall>b\<in>set pre. bit b 7) \<and> \<not> bit t 7 \<longrightarrow>
      read_var_int (pre @ t # rest) = Inr (spec_varint_value (pre @ [t]), rest))
   \<and> read_var_int (spec_varint_encode n @ rest) = Inr (n, rest)
   \<and> (\<forall>v\<in>set [0, 1, 127, 128, 300, 16384, 2097151].
        read_var_int (spec_varint_encode v) = Inr (v, []))
   \<and> ((\<forall>b\<in>set bs. bit b 7) \<longrightarrow> read_var_int bs = Inl TypeError)"
proof -
  have enc: "read_var_int (spec_varint_encode m @ r) = Inr (m, r)" for m r
    by (simp add: read_var_int_def read_var_int_loop_encode)
  have stop: "read_var_int (pre @ t # rest) = Inr (spec_varint_value (pre @ [t]), rest)"
    if "\<forall>b\<in>set pre. bit b 7" "\<not> bit t 7"
    using read_var_int_loop_stop [OF that, of 0 0 rest]
    by (simp add: read_var_int_def spec_varint_value_def del: upt_Suc)
  have trunc: "read_var_int bs = Inl TypeError" if "\<forall>b\<in>set bs. bit b 7"
    using that by (simp add: read_var_int_def read_var_int_loop_truncated)
  have vals: "\<forall>v\<in>set [0, 1, 127, 128, 300, 16384, 2097151].
        read_var_int (spec_varint_encode v) = Inr (v, [])"
    using enc [of _ "[]"] by simp
  from enc stop trunc vals show ?thesis by blast
qed

theorem read_var_int_decodes_witness:
  "read_var_int [0xAC, 0x02, 0x07] = Inr (300, [0x07])
   \<and> spec_varint_encode 300 = [0xAC, 0x02]
   \<and> read_var_int (spec_varint_encode 2097151 @ [0x07]) = Inr (2097151, [0x07])
   \<and> read_var_int [0x80, 0x81] = Inl TypeError"
proof -
  have h1: "\<forall>b\<in>set [0xAC :: byte]. bit b 7" by simp
  have h2: "\<not> bit (0x02 :: byte) 7" by simp
  have h3: "\<forall>b\<in>set [0x80, 0x81 :: byte]. bit b 7" by simp
  have v: "spec_varint_value [0xAC, 0x02] = 300"
    by (simp add: spec_varint_value_def upt_conv_Cons)
  have e: "spec_varint_encode 300 = [0xAC, 0x02]"
    by (simp add: spec_varint_encode.simps)
  from read_var_int_decodes [of "[0xAC]" "0x02" "[0x07]" 2097151 "[0x80, 0x81]"] h1 h2 h3 v e
  show ?thesis by simp
qed


subsection \<open>read_block\<close>

lemma read_var_int_encode: "read_var_int (spec_varint_encode n @ rest) = Inr (n, rest)"
  by (simp add: read_var_int_def read_var_int_loop_encode)

text \<open>
  Claim C3 as stated fails: on a source holding the length 5 and then only two bytes,
  \<open>read_block\<close> returns the two bytes and raises nothing.
\<close>

theorem read_block_short_source:
  "read_var_int [5, 1, 2] = Inr (5, [1, 2]) \<and> read_block [5, 1, 2] = Inr ([1, 2], [])"
  by (simp add: read_block_def read_var_int_def fobj_read_def ssize_t_max_def Let_def)

text \<open>
  Claim C3, amended. \<open>read_block\<close> first decodes one varint length \<open>n\<close> and fails where
  that decoding fails. For \<open>n\<close> below \<open>2 ^ 63\<close> it then returns the next \<open>n\<close> bytes of
  the source when at least \<open>n\<close> remain (so a block written as its varint length
  followed by its bytes is read back exactly, with the source left just behind it), and
  all the remaining bytes, fewer than \<open>n\<close> and without an error, when the source ends
  earlier. For \<open>n\<close> of \<open>2 ^ 63\<close> or more the read raises OverflowError.
\<close>

theorem read_block_returns_available:
  "(\<forall>n f'. read_var_int f = Inr (n, f') \<and> n < 2 ^ 63 \<longrightarrow>
      (\<exists>b r. read_block f = Inr (b, r) \<and> b @ r = f' \<and> length b = min n (length f')))
   \<and> (\<forall>n f'. read_var_int f = Inr (n, f') \<and> 2 ^ 63 \<le> n \<longrightarrow>
        read_block f = Inl OverflowError)
   \<and> (\<forall>e. read_var_int f = Inl e \<longrightarrow> read_block f = Inl e)
   \<and> (length payload < 2 ^ 63 \<longrightarrow>
        read_block (spec_varint_encode (length payload) @ payload @ rest) = Inr (payload, rest))"
  by (auto simp: read_block_def fobj_read_def ssize_t_max_def read_var_int_encode min_def)

theorem read_block_returns_available_witness:
  "read_var_int [2, 7, 8, 9] = Inr (2, [7, 8, 9])
   \<and> read_block [2, 7, 8, 9] = Inr ([7, 8], [9])
   \<and> read_var_int [4, 7, 8, 9] = Inr (4, [7, 8, 9])
   \<and> read_block [4, 7, 8, 9] = Inr ([7, 8, 9], [])
   \<and> read_var_int [0x80] = Inl TypeError
   \<and> read_block [0x80] = Inl TypeError
   \<and> read_var_int [0x80, 0x80, 0x80, 0x80, 0x80, 0x80, 0x80, 0x80, 0x80, 0x01, 7]
        = Inr (2 ^ 63, [7])
   \<and> read_block [0x80, 0x80, 0x80, 0x80, 0x80, 0x80, 0x80, 0x80, 0x80, 0x01, 7]
        = Inl OverflowError"
proof -
  have v1: "read_var_int [2, 7, 8, 9] = Inr (2, [7, 8, 9])"
    by (simp add: read_var_int_def Let_def)
  have v2: "read_var_int [4, 7, 8, 9] = Inr (4, [7, 8, 9])"
    by (simp add: read_var_int_def Let_def)
  have v3: "read_var_int [0x80] = Inl TypeError"
    by (simp add: read_var_int_def Let_def)
  have v4: "read_var_int [0x80, 0x80, 0x80, 0x80, 0x80, 0x80, 0x80, 0x80, 0x80, 0x01, 7]
        = Inr (2 ^ 63, [7])"
    by (simp add: read_var_int_def Let_def)
  from read_block_returns_available [of "[2, 7, 8, 9]" "[]" "[]"] v1
  obtain b r where "read_block [2, 7, 8, 9] = Inr (b, r)" "b @ r = [7, 8, 9]" "length b = 2"
    by auto
  then have b1: "read_block [2, 7, 8, 9] = Inr ([7, 8], [9])"
    by (simp add: append_eq_conv_conj)
  from read_block_returns_available [of "[4, 7, 8, 9]" "[]" "[]"] v2
  obtain b r where "read_block [4, 7, 8, 9] = Inr (b, r)" "b @ r = [7, 8, 9]" "length b = 3"
    by auto
  then have b2: "read_block [4, 7, 8, 9] = Inr ([7, 8, 9], [])"
    by (simp add: append_eq_conv_conj)
  from read_block_returns_available [of "[0x80]" "[]" "[]"] v3
  have b3: "read_block [0x80] = Inl TypeError" by blast
  from read_block_returns_available
    [of "[0x80, 0x80, 0x80, 0x80, 0x80, 0x80, 0x80, 0x80, 0x80, 0x01, 7]" "[]" "[]"] v4
  have b4: "read_block [0x80, 0x80, 0x80, 0x80, 0x80, 0x80, 0x80, 0x80, 0x80, 0x01, 7]
        = Inl OverflowError"
    by simp
  from v1 v2 v3 v4 b1 b2 b3 b4 show ?thesis by blast
qed

subsection \<open>data_type_to_numpy\<close>

lemma data_type_to_numpy_unsigned_wider:
  "data_type_to_numpy SHORT True =
     Inr \<lparr>byteorder = NativeOrder, kind = KindUInt, itemsize = 2, field_name = None\<rparr>"
  "data_type_to_numpy DT_INT True =
     Inr \<lparr>byteorder = NativeOrder, kind = KindUInt, itemsize = 4, field_name = None\<rparr>"
  "data_type_to_numpy LONG True =
     Inr \<lparr>byteorder = NativeOrder, kind = KindUInt, itemsize = 8, field_name = None\<rparr>"
  "data_type_to_numpy SHORT False =
     Inr \<lparr>byteorder = NativeOrder, kind = KindInt, itemsize = 2, field_name = None\<rparr>"
  "data_type_to_numpy DT_INT False =
     Inr \<lparr>byteorder = NativeOrder, kind = KindInt, itemsize = 4, field_name = None\<rparr>"
  "data_type_to_numpy LONG False =
     Inr \<lparr>byteorder = NativeOrder, kind = KindInt, itemsize = 8, field_name = None\<rparr>"
  by (simp_all add: data_type_to_numpy_def dtypeLookup_def str_replace_def np_dtype_def
        np_typestr_def has_byteorder_def order_of_char_def)

lemma data_type_to_numpy_string_opaque:
  "data_type_to_numpy STRING u = data_type_to_numpy STRING False"
  "data_type_to_numpy OPAQUE u = data_type_to_numpy OPAQUE False"
  by (simp_all add: data_type_to_numpy_def dtypeLookup_def)

text \<open>
  Claim C4 at the failing input. For BYTE with the unsigned flag set, the replacement of
  \<open>i\<close> by \<open>u\<close> finds nothing to replace in the type string \<open>b\<close>: the result is the
  signed one-byte encoding, the same as without the flag, and not the unsigned one-byte
  encoding that ENUM1 maps to. (A one-byte encoding has no byte order.)
\<close>

theorem data_type_to_numpy_unsigned_byte:
  "data_type_to_numpy BYTE True =
     Inr \<lparr>byteorder = NotApplicable, kind = KindInt, itemsize = 1, field_name = None\<rparr>
   \<and> data_type_to_numpy BYTE True = data_type_to_numpy BYTE False
   \<and> data_type_to_numpy ENUM1 False =
     Inr \<lparr>byteorder = NotApplicable, kind = KindUInt, itemsize = 1, field_name = None\<rparr>"
  by (simp add: data_type_to_numpy_def dtypeLookup_def str_replace_def np_dtype_def
        np_typestr_def has_byteorder_def order_of_char_def)


subsection \<open>unpack_attribute\<close>

lemma length_chunks: "length (chunks n xs) = length xs div n"
  by (simp add: chunks_def)

lemma chunks_single: "0 < n \<Longrightarrow> n \<le> length xs \<Longrightarrow> chunks n (take n xs) = [take n xs]"
  by (simp add: chunks_def min_def)

lemma attrConverters_dtype:
  "attrConverters t = Some ts \<Longrightarrow>
   t \<noteq> ATTR_STRING \<and>
   (\<exists>dt. np_dtype ts = Inr dt
      \<and> byteorder dt = (if itemsize dt = 1 then NotApplicable else BigEndian)
      \<and> 0 < itemsize dt \<and> kind dt \<noteq> KindObject)"
  by (cases t)
     (auto simp: attrConverters_def np_dtype_def np_typestr_def has_byteorder_def
        order_of_char_def split: if_splits)

lemma unpack_attribute_len0:
  "att_len att = 0 \<Longrightarrow> unpack_attribute att = Inr (att_name att, NoneValue)"
  by (simp add: unpack_attribute_def)

lemma unpack_attribute_string:
  "att_type att = ATTR_STRING \<Longrightarrow> 1 < att_len att \<Longrightarrow>
   unpack_attribute att = Inr (att_name att, SdataValue (att_sdata att))"
  by (simp add: unpack_attribute_def)

lemma unpack_attribute_string1:
  "att_type att = ATTR_STRING \<Longrightarrow> att_len att = 1 \<Longrightarrow>
   unpack_attribute att =
     (case att_sdata att of
        [] \<Rightarrow> Inl IndexError
      | x # xs \<Rightarrow> Inr (att_name att, SdataItem x))"
  by (simp add: unpack_attribute_def index0_def split: list.splits)

lemma unpack_attribute_numeric:
  assumes ts: "attrConverters (att_type att) = Some ts" and len: "0 < att_len att"
  shows "\<exists>dt. np_dtype ts = Inr dt
     \<and> byteorder dt = (if itemsize dt = 1 then NotApplicable else BigEndian)
     \<and> 0 < itemsize dt
     \<and> (length (att_data att) < att_len att * itemsize dt \<longrightarrow>
          unpack_attribute att = Inl ValueError)
     \<and> (att_len att * itemsize dt \<le> length (att_data att) \<longrightarrow>
          (\<exists>a. arr_dtype a = dt \<and> arr_shape a = [att_len att]
             \<and> arr_items a = map (decode_item dt)
                   (chunks (itemsize dt) (take (att_len att * itemsize dt) (att_data att)))
             \<and> length (arr_items a) = att_len att
             \<and> unpack_attribute att =
                 Inr (att_name att,
                      if att_len att = 1
                      then ScalarValue (decode_item dt (take (itemsize dt) (att_data att)))
                      else ArrayValue a)))"
proof -
  from attrConverters_dtype [OF ts] obtain dt where
    ns: "att_type att \<noteq> ATTR_STRING" and
    dt: "np_dtype ts = Inr dt"
    and o: "byteorder dt = (if itemsize dt = 1 then NotApplicable else BigEndian)"
    and n: "0 < itemsize dt" and k: "kind dt \<noteq> KindObject"
    by blast
  let ?n = "itemsize dt"
  let ?a = "\<lparr>arr_dtype = dt, arr_shape = [att_len att],
             arr_items = map (decode_item dt)
               (chunks ?n (take (att_len att * ?n) (att_data att)))\<rparr>"
  have short: "unpack_attribute att = Inl ValueError"
    if "length (att_data att) < att_len att * ?n"
    using that ns ts dt len n k by (simp add: unpack_attribute_def np_fromstring_def)
  have fs: "np_fromstring (att_data att) dt (att_len att) = Inr ?a"
    if "att_len att * ?n \<le> length (att_data att)"
    using that n k by (simp add: np_fromstring_def)
  have items: "length (arr_items ?a) = att_len att"
    if "att_len att * ?n \<le> length (att_data att)"
    using that n by (simp add: length_chunks min_def)
  have many: "unpack_attribute att = Inr (att_name att, ArrayValue ?a)"
    if "att_len att * ?n \<le> length (att_data att)" "att_len att \<noteq> 1"
    using that ns ts dt len fs by (simp add: unpack_attribute_def)
  have one: "unpack_attribute att =
      Inr (att_name att, ScalarValue (decode_item dt (take ?n (att_data att))))"
    if "att_len att * ?n \<le> length (att_data att)" "att_len att = 1"
    using that ns ts dt fs n
    by (simp add: unpack_attribute_def index0_def chunks_single)
  show ?thesis
  proof (intro exI [of _ dt] conjI impI)
    assume le: "att_len att * itemsize dt \<le> length (att_data att)"
    show "\<exists>a. arr_dtype a = dt \<and> arr_shape a = [att_len att]
             \<and> arr_items a = map (decode_item dt)
                   (chunks (itemsize dt) (take (att_len att * itemsize dt) (att_data att)))
             \<and> length (arr_items a) = att_len att
             \<and> unpack_attribute att =
                 Inr (att_name att,
                      if att_len att = 1
                      then ScalarValue (decode_item dt (take (itemsize dt) (att_data att)))
                      else ArrayValue a)"
    proof (cases "att_len att = 1")
      case True
      with le items one [OF _ True] show ?thesis
        by (intro exI [of _ ?a]) simp
    next
      case False
      with le items many [OF _ False] show ?thesis
        by (intro exI [of _ ?a]) simp
    qed
  qed (use dt o n short in simp_all)
qed

lemma unpack_attribute_unsupported:
  "att_type att \<noteq> ATTR_STRING \<Longrightarrow> attrConverters (att_type att) = None \<Longrightarrow>
   0 < att_len att \<Longrightarrow> unpack_attribute att = Inl KeyError"
  by (simp add: unpack_attribute_def)

text \<open>
  Claim C5 as stated fails: the collapse \<open>val = val[0]\<close> is applied whenever \<open>len\<close> is
  1, on the string path too. A STRING attribute of length 1 whose \<open>sdata\<close> is the text
  \<open>hi\<close> yields its first item \<open>h\<close>, not the full \<open>sdata\<close>; with \<open>sdata\<close> read as a
  repeated field holding the one string \<open>hi\<close> it yields that string, not the field.
\<close>

theorem unpack_attribute_string_collapses:
  "unpack_attribute
     \<lparr>att_name = ''units'', att_type = ATTR_STRING, att_len = 1, att_data = [],
      att_sdata = ''hi'', att_unsigned = False\<rparr>
     = Inr (''units'', SdataItem CHR ''h'')
   \<and> unpack_attribute
     \<lparr>att_name = ''units'', att_type = ATTR_STRING, att_len = 1, att_data = [],
      att_sdata = [''hi''], att_unsigned = False\<rparr>
     = Inr (''units'', SdataItem ''hi'')"
  by (simp add: unpack_attribute_def index0_def)

text \<open>
  Claim C5, amended. \<open>unpack_attribute\<close> returns a null value when \<open>len\<close> is 0. For
  the type STRING it returns the full \<open>sdata\<close> when \<open>len\<close> is greater than 1, and the
  first item of \<open>sdata\<close> when \<open>len\<close> is 1 (an IndexError when \<open>sdata\<close> is empty). For
  a type of the converter table and \<open>len > 0\<close> it decodes \<open>data\<close> with a big-endian
  dtype (for the one-byte type, which has no byte order, with that type): a ValueError
  when \<open>data\<close> holds fewer than \<open>len\<close> items, else an array of exactly the first
  \<open>len\<close> items, replaced by its single item when \<open>len\<close> is 1.
  Any other type with \<open>len > 0\<close> is a KeyError.
\<close>

theorem unpack_attribute_value:
  "(att_len att = 0 \<longrightarrow> unpack_attribute att = Inr (att_name att, NoneValue))
   \<and> (att_type att = ATTR_STRING \<and> 1 < att_len att \<longrightarrow>
        unpack_attribute att = Inr (att_name att, SdataValue (att_sdata att)))
   \<and> (att_type att = ATTR_STRING \<and> att_len att = 1 \<longrightarrow>
        unpack_attribute att =
          (case att_sdata att of
             [] \<Rightarrow> Inl IndexError
           | x # xs \<Rightarrow> Inr (att_name att, SdataItem x)))
   \<and> (attrConverters (att_type att) = Some ts \<and> 0 < att_len att \<longrightarrow>
        (\<exists>dt. np_dtype ts = Inr dt
           \<and> byteorder dt = (if itemsize dt = 1 then NotApplicable else BigEndian)
           \<and> 0 < itemsize dt
           \<and> (length (att_data att) < att_len att * itemsize dt \<longrightarrow>
                unpack_attribute att = Inl ValueError)
           \<and> (att_len att * itemsize dt \<le> length (att_data att) \<longrightarrow>
                (\<exists>a. arr_dtype a = dt \<and> arr_shape a = [att_len att]
                   \<and> arr_items a = map (decode_item dt)
                         (chunks (itemsize dt) (take (att_len att * itemsize dt) (att_data att)))
                   \<and> length (arr_items a) = att_len att
                   \<and> unpack_attribute att =
                       Inr (att_name att,
                            if att_len att = 1
                            then ScalarValue (decode_item dt (take (itemsize dt) (att_data att)))
                            else ArrayValue a)))))
   \<and> (att_type att \<noteq> ATTR_STRING \<and> attrConverters (att_type att) = None \<and> 0 < att_len att
        \<longrightarrow> unpack_attribute att = Inl KeyError)"
  using unpack_attribute_len0 [of att] unpack_attribute_string [of att]
    unpack_attribute_string1 [of att] unpack_attribute_numeric [of att ts]
    unpack_attribute_unsupported [of att]
  by blast


lemma upt_2: "[0..<2] = [0, Suc 0]"
  by (simp add: upt_conv_Cons)

theorem unpack_attribute_value_witness:
  "unpack_attribute
     \<lparr>att_name = ''n'', att_type = ATTR_INT, att_len = 2,
      att_data = [0, 0, 0, 1, 0xFF, 0xFF, 0xFF, 0xFE],
      att_sdata = ([] :: string), att_unsigned = False\<rparr>
     = Inr (''n'',
            ArrayValue
              \<lparr>arr_dtype = \<lparr>byteorder = BigEndian, kind = KindInt, itemsize = 4, field_name = None\<rparr>,
               arr_shape = [2],
               arr_items = [IntItem 1, IntItem (- 2)]\<rparr>)
   \<and> unpack_attribute
     \<lparr>att_name = ''n'', att_type = ATTR_INT, att_len = 0, att_data = [],
      att_sdata = ([] :: string), att_unsigned = False\<rparr>
     = Inr (''n'', NoneValue)
   \<and> unpack_attribute
     \<lparr>att_name = ''n'', att_type = ATTR_STRING, att_len = 2, att_data = [],
      att_sdata = ''hi'', att_unsigned = False\<rparr>
     = Inr (''n'', SdataValue ''hi'')"
proof -
  let ?att = "\<lparr>att_name = ''n'', att_type = ATTR_INT, att_len = 2,
      att_data = [0, 0, 0, 1, 0xFF, 0xFF, 0xFF, 0xFE :: byte],
      att_sdata = ([] :: string), att_unsigned = False\<rparr>"
  let ?dt = "\<lparr>byteorder = BigEndian, kind = KindInt, itemsize = 4, field_name = None\<rparr>"
  have ts: "attrConverters (att_type ?att) = Some ''>i4''"
    by (simp add: attrConverters_def)
  have dt: "np_dtype ''>i4'' = Inr ?dt"
    by (simp add: np_dtype_def np_typestr_def has_byteorder_def order_of_char_def)
  from unpack_attribute_value [of ?att "''>i4''"] ts dt
  obtain a where a: "arr_dtype a = ?dt" "arr_shape a = [2]"
      "arr_items a = map (decode_item ?dt) (chunks 4 (take 8 (att_data ?att)))"
      "unpack_attribute ?att = Inr (''n'', ArrayValue a)"
    by auto
  have "arr_items a = [IntItem 1, IntItem (- 2)]"
    by (simp add: a(3) chunks_def upt_2 decode_item_def be_value_def)
  with a have "a = \<lparr>arr_dtype = ?dt, arr_shape = [2], arr_items = [IntItem 1, IntItem (- 2)]\<rparr>"
    by (cases a) simp
  with a(4) have 1: "unpack_attribute ?att = Inr (''n'',
            ArrayValue \<lparr>arr_dtype = ?dt, arr_shape = [2],
               arr_items = [IntItem 1, IntItem (- 2)]\<rparr>)"
    by simp
  from unpack_attribute_value
    [of "\<lparr>att_name = ''n'', att_type = ATTR_INT, att_len = 0, att_data = [],
      att_sdata = ([] :: string), att_unsigned = False\<rparr>" "[]"]
  have 2: "unpack_attribute
     \<lparr>att_name = ''n'', att_type = ATTR_INT, att_len = 0, att_data = [],
      att_sdata = ([] :: string), att_unsigned = False\<rparr>
     = Inr (''n'', NoneValue)"
    by simp
  from unpack_attribute_value
    [of "\<lparr>att_name = ''n'', att_type = ATTR_STRING, att_len = 2, att_data = [],
      att_sdata = ''hi'', att_unsigned = False\<rparr>" "[]"]
  have 3: "unpack_attribute
     \<lparr>att_name = ''n'', att_type = ATTR_STRING, att_len = 2, att_data = [],
      att_sdata = ''hi'', att_unsigned = False\<rparr>
     = Inr (''n'', SdataValue ''hi'')"
    by simp
  from 1 2 3 show ?thesis by blast
qed


subsection \<open>make_array\<close>

lemma data_type_to_numpy_lookup:
  "dtypeLookup t \<noteq> None \<Longrightarrow> \<exists>dt. data_type_to_numpy t False = Inr dt"
  by (cases t)
     (simp_all add: dtypeLookup_def data_type_to_numpy_def np_dtype_def np_typestr_def has_byteorder_def order_of_char_def)

lemma dtypeLookup_not_structure: "dtypeLookup t \<noteq> None \<Longrightarrow> t \<noteq> STRUCTURE"
  by (auto simp: dtypeLookup_def)

lemma np_frombuffer_dtype: "np_frombuffer b dt = Inr a \<Longrightarrow> arr_dtype a = dt"
  by (auto simp: np_frombuffer_def split: if_splits)


lemma reshape_size_prod: "reshape_size k s = Some n \<Longrightarrow> n = k * prod_list s"
proof (induction s arbitrary: k)
  case Nil
  then show ?case by simp
next
  case (Cons d s)
  from Cons.prems have "reshape_size (k * d) s = Some n"
    by (simp split: if_splits)
  then have "n = k * d * prod_list s" by (rule Cons.IH)
  then show ?case by (simp add: mult.assoc)
qed




lemma np_reshape_Inr:
  "np_reshape ret s = Inr a \<Longrightarrow>
   arr_dtype a = arr_dtype ret \<and> arr_items a = arr_items ret \<and> arr_shape a = s
   \<and> prod_list s = length (arr_items ret)"
  by (auto simp: np_reshape_def split: if_splits option.splits dest: reshape_size_prod)





text \<open>The function body, stage by stage.\<close>

lemma make_array_stages:
  "make_array z h buf = Inr a \<Longrightarrow>
   \<exists>buf1 dt b ret.
     make_array_dtype h buf = Inr (buf1, dt)
     \<and> make_array_decompress z h buf1 = Inr (BytesBuf b)
     \<and> np_frombuffer b dt = Inr ret
     \<and> (if vdata h \<or> section_range h = [] then a = ret
         else np_reshape ret (map range_size (section_range h)) = Inr a)"
  by (auto simp: make_array_def make_array_shape_def Let_def
        split: sum.splits buf.splits option.splits if_splits prod.splits)


lemma make_array_result_dtype:
  "make_array z h buf = Inr a \<Longrightarrow> \<exists>buf1. make_array_dtype h buf = Inr (buf1, arr_dtype a)"
  by (drule make_array_stages)
     (auto dest!: np_frombuffer_dtype np_reshape_Inr split: if_splits)

lemma make_array_dtype_plain:
  "dataType h \<noteq> STRUCTURE \<Longrightarrow> make_array_dtype h buf = Inr (buf1, dt) \<Longrightarrow>
   buf1 = buf
   \<and> byteorder dt = (if has_byteorder (kind dt) (itemsize dt) then BigEndian else NotApplicable)"
  by (cases "dataType h")
     (auto simp: make_array_dtype_def newbyteorder_def data_type_to_numpy_def dtypeLookup_def
        np_dtype_def np_typestr_def has_byteorder_def order_of_char_def Let_def)

lemma make_array_dtype_structure:
  "dataType h = STRUCTURE \<Longrightarrow> make_array_dtype h buf = Inr (buf1, dt) \<Longrightarrow>
   byteorder dt = NotApplicable \<and> kind dt = KindVoid
   \<and> field_name dt = Some [if bigend h then CHR ''>'' else CHR ''<'']"
  by (auto simp: make_array_dtype_def newbyteorder_def np_dtype_void_field_def Let_def
        split: buf.splits)

subsubsection \<open>Decompression\<close>

lemma make_array_deflate_mismatch:
  assumes "compress h = DEFLATE" "dtypeLookup (dataType h) \<noteq> None"
    "z b = Some b'" "length b' \<noteq> uncompressedSize h"
  shows "make_array z h (BytesBuf b) = Inl AssertionError"
proof -
  from assms(2) obtain dt where "data_type_to_numpy (dataType h) False = Inr dt"
    using data_type_to_numpy_lookup by blast
  with assms dtypeLookup_not_structure [OF assms(2)] show ?thesis
    by (simp add: make_array_def make_array_dtype_def make_array_decompress_def Let_def)
qed

lemma make_array_deflate_inflated:
  assumes "compress h = DEFLATE" "dtypeLookup (dataType h) \<noteq> None"
    "z b = Some b'" "length b' = uncompressedSize h"
  shows "make_array z h (BytesBuf b) = make_array z (h\<lparr>compress := NONE\<rparr>) (BytesBuf b')"
proof -
  from assms(2) obtain dt where "data_type_to_numpy (dataType h) False = Inr dt"
    using data_type_to_numpy_lookup by blast
  with assms dtypeLookup_not_structure [OF assms(2)] show ?thesis
    by (simp add: make_array_def make_array_dtype_def make_array_decompress_def
          make_array_shape_def Let_def split: sum.split)
qed

lemma make_array_structure_verbatim:
  assumes "dataType h = STRUCTURE" "compress h \<in> {NONE, DEFLATE}"
  shows "make_array_decompress z h (BytesBuf (sd_data sd)) = Inr (BytesBuf (sd_data sd))"
    and "make_array z h (StructBuf sd) = make_array z' (h\<lparr>compress := NONE\<rparr>) (StructBuf sd)"
  using assms
  by (auto simp: make_array_def make_array_dtype_def make_array_decompress_def
        make_array_shape_def Let_def split: sum.split)

lemma make_array_unsupported_compression:
  assumes "compress h \<notin> {NONE, DEFLATE}"
  shows "dtypeLookup (dataType h) \<noteq> None \<Longrightarrow> make_array z h buf = Inl NotImplementedError"
    and "dataType h = STRUCTURE \<Longrightarrow> make_array z h (StructBuf sd) = Inl NotImplementedError"
proof -
  show "make_array z h buf = Inl NotImplementedError" if l: "dtypeLookup (dataType h) \<noteq> None"
  proof -
    from l obtain dt where "data_type_to_numpy (dataType h) False = Inr dt"
      using data_type_to_numpy_lookup by blast
    with assms dtypeLookup_not_structure [OF l] show ?thesis
      by (simp add: make_array_def make_array_dtype_def make_array_decompress_def Let_def)
  qed
  show "make_array z h (StructBuf sd) = Inl NotImplementedError" if "dataType h = STRUCTURE"
    using that assms
    by (simp add: make_array_def make_array_dtype_def make_array_decompress_def Let_def)
qed

text \<open>
  Claim C6, for the headers that the decode loop hands to \<open>make_array\<close>: a data type of
  the lookup table with the payload bytes, or STRUCTURE with a StructureData. With
  \<open>compress = DEFLATE\<close> and a type other than STRUCTURE the payload is inflated, the
  call fails with the AssertionError of the length check unless the inflated length is
  \<open>uncompressedSize\<close>, and then goes on with the inflated bytes. A STRUCTURE payload is
  used as it is whether \<open>compress\<close> is NONE or DEFLATE: the decompressor is not
  consulted. Any other compression code fails with NotImplementedError.
\<close>

theorem make_array_compression:
  "(compress h = DEFLATE \<and> dtypeLookup (dataType h) \<noteq> None \<and> z b = Some b' \<longrightarrow>
      (length b' \<noteq> uncompressedSize h \<longrightarrow> make_array z h (BytesBuf b) = Inl AssertionError)
    \<and> (length b' = uncompressedSize h \<longrightarrow>
          make_array z h (BytesBuf b) = make_array z (h\<lparr>compress := NONE\<rparr>) (BytesBuf b')))
   \<and> (dataType h = STRUCTURE \<and> compress h \<in> {NONE, DEFLATE} \<longrightarrow>
        make_array_decompress z h (BytesBuf (sd_data sd)) = Inr (BytesBuf (sd_data sd))
      \<and> make_array z h (StructBuf sd) = make_array z' (h\<lparr>compress := NONE\<rparr>) (StructBuf sd))
   \<and> (compress h \<notin> {NONE, DEFLATE} \<and> dtypeLookup (dataType h) \<noteq> None \<longrightarrow>
        make_array z h buf = Inl NotImplementedError)
   \<and> (compress h \<notin> {NONE, DEFLATE} \<and> dataType h = STRUCTURE \<longrightarrow>
        make_array z h (StructBuf sd) = Inl NotImplementedError)"
  using make_array_deflate_mismatch [where h = h and z = z and b = b and b' = b']
    make_array_deflate_inflated [where h = h and z = z and b = b and b' = b']
    make_array_structure_verbatim(1) [where h = h and z = z and sd = sd]
    make_array_structure_verbatim(2) [where h = h and z = z and sd = sd and z' = z']
    make_array_unsupported_compression(1) [where h = h and z = z and buf = buf]
    make_array_unsupported_compression(2) [where h = h and z = z and sd = sd]
  by blast


theorem make_array_compression_witness:
  "make_array (\<lambda>b. Some (drop 1 b))
     \<lparr>dataType = BYTE, compress = DEFLATE, bigend = False, vdata = False,
      section_range = [\<lparr>range_size = 2\<rparr>], uncompressedSize = 3\<rparr>
     (BytesBuf [9, 1, 2]) = Inl AssertionError
   \<and> make_array (\<lambda>b. Some (drop 1 b))
     \<lparr>dataType = BYTE, compress = DEFLATE, bigend = False, vdata = False,
      section_range = [\<lparr>range_size = 2\<rparr>], uncompressedSize = 2\<rparr>
     (BytesBuf [9, 1, 2])
     = Inr \<lparr>arr_dtype = \<lparr>byteorder = NotApplicable, kind = KindInt, itemsize = 1, field_name = None\<rparr>,
            arr_shape = [2], arr_items = [IntItem 1, IntItem 2]\<rparr>
   \<and> make_array (\<lambda>b. Some (drop 1 b))
     \<lparr>dataType = STRUCTURE, compress = DEFLATE, bigend = False, vdata = False,
      section_range = [\<lparr>range_size = 2\<rparr>], uncompressedSize = 0\<rparr>
     (StructBuf \<lparr>sd_data = [1, 2, 3, 4], rowLength = 2\<rparr>)
     = Inr \<lparr>arr_dtype = \<lparr>byteorder = NotApplicable, kind = KindVoid, itemsize = 2,
                          field_name = Some ''<''\<rparr>,
            arr_shape = [2], arr_items = [RawItem [1, 2], RawItem [3, 4]]\<rparr>
   \<and> make_array (\<lambda>b. Some (drop 1 b))
     \<lparr>dataType = BYTE, compress = OtherCompress 2, bigend = False, vdata = False,
      section_range = [\<lparr>range_size = 2\<rparr>], uncompressedSize = 2\<rparr>
     (BytesBuf [1, 2]) = Inl NotImplementedError"
proof -
  let ?z = "\<lambda>b :: bytes. Some (drop 1 b)"
  let ?h = "\<lambda>c u. \<lparr>dataType = BYTE, compress = c, bigend = False, vdata = False,
      section_range = [\<lparr>range_size = 2\<rparr>], uncompressedSize = u\<rparr>"
  let ?hs = "\<lparr>dataType = STRUCTURE, compress = DEFLATE, bigend = False, vdata = False,
      section_range = [\<lparr>range_size = 2\<rparr>], uncompressedSize = 0\<rparr>"
  let ?sd = "\<lparr>sd_data = [1, 2, 3, 4], rowLength = 2\<rparr>"
  have lk: "dtypeLookup BYTE \<noteq> None" by (simp add: dtypeLookup_def)
  have plain: "make_array ?z (?h NONE 2) (BytesBuf [1, 2])
     = Inr \<lparr>arr_dtype = \<lparr>byteorder = NotApplicable, kind = KindInt, itemsize = 1, field_name = None\<rparr>,
            arr_shape = [2], arr_items = [IntItem 1, IntItem 2]\<rparr>"
    by (simp add: make_array_def make_array_dtype_def make_array_shape_def
          make_array_decompress_def data_type_to_numpy_def dtypeLookup_def np_dtype_def
          np_typestr_def has_byteorder_def order_of_char_def newbyteorder_def np_frombuffer_def np_reshape_def NPY_MAXDIMS_def npy_intp_max_def chunks_def
          upt_2 decode_item_def be_value_def Let_def)
  have splain: "make_array ?z (?hs\<lparr>compress := NONE\<rparr>) (StructBuf ?sd)
     = Inr \<lparr>arr_dtype = \<lparr>byteorder = NotApplicable, kind = KindVoid, itemsize = 2,
                          field_name = Some ''<''\<rparr>,
            arr_shape = [2], arr_items = [RawItem [1, 2], RawItem [3, 4]]\<rparr>"
    by (simp add: make_array_def make_array_dtype_def make_array_shape_def
          make_array_decompress_def np_dtype_void_field_def
          newbyteorder_def np_frombuffer_def np_reshape_def NPY_MAXDIMS_def npy_intp_max_def chunks_def
          upt_2 decode_item_def Let_def)
  from make_array_compression
     [where h = "?h DEFLATE 3" and z = ?z and b = "[9, 1, 2]" and b' = "[1, 2]"] lk
  have 1: "make_array ?z (?h DEFLATE 3) (BytesBuf [9, 1, 2]) = Inl AssertionError"
    by simp
  from make_array_compression
     [where h = "?h DEFLATE 2" and z = ?z and b = "[9, 1, 2]" and b' = "[1, 2]"] lk plain
  have 2: "make_array ?z (?h DEFLATE 2) (BytesBuf [9, 1, 2])
     = Inr \<lparr>arr_dtype = \<lparr>byteorder = NotApplicable, kind = KindInt, itemsize = 1, field_name = None\<rparr>,
            arr_shape = [2], arr_items = [IntItem 1, IntItem 2]\<rparr>"
    by simp
  from make_array_compression [where h = ?hs and z = ?z and z' = ?z and sd = ?sd] splain
  have 3: "make_array ?z ?hs (StructBuf ?sd)
     = Inr \<lparr>arr_dtype = \<lparr>byteorder = NotApplicable, kind = KindVoid, itemsize = 2,
                          field_name = Some ''<''\<rparr>,
            arr_shape = [2], arr_items = [RawItem [1, 2], RawItem [3, 4]]\<rparr>"
    by simp
  from make_array_compression
     [where h = "?h (OtherCompress 2) 2" and z = ?z and buf = "BytesBuf [1, 2]"] lk
  have 4: "make_array ?z (?h (OtherCompress 2) 2) (BytesBuf [1, 2]) = Inl NotImplementedError"
    by simp
  from 1 2 3 4 show ?thesis by simp
qed

subsubsection \<open>Byte order\<close>

text \<open>
  For a data type other than STRUCTURE the flag \<open>bigend\<close> is not read: the result is
  the same whatever its value, and the items are read in big-endian order (one-byte
  items and byte strings have no order).
\<close>

lemma make_array_bigend_plain:
  "dataType h \<noteq> STRUCTURE \<Longrightarrow> make_array z (h\<lparr>bigend := e\<rparr>) buf = make_array z h buf"
  by (simp add: make_array_def make_array_dtype_def make_array_decompress_def
        make_array_shape_def Let_def
      cong: sum.case_cong prod.case_cong buf.case_cong option.case_cong if_cong)

lemma make_array_order_plain:
  "dataType h \<noteq> STRUCTURE \<Longrightarrow> make_array z h buf = Inr a \<Longrightarrow>
   byteorder (arr_dtype a) =
     (if has_byteorder (kind (arr_dtype a)) (itemsize (arr_dtype a)) then BigEndian
      else NotApplicable)"
  by (drule make_array_result_dtype) (auto dest: make_array_dtype_plain)

lemma read_vlen_data_bigend:
  "read_vlen_data C (data\<lparr>bigend := e\<rparr>) f messages lg = read_vlen_data C data f messages lg"
  by (simp add: read_vlen_data_def cong: sum.case_cong prod.case_cong if_cong)

text \<open>
  For STRUCTURE the record type of the result has no byte order, whatever \<open>bigend\<close>:
  the flag only names the field of the record. The rows are the raw bytes of the
  payload.
\<close>

lemma make_array_order_structure:
  "dataType h = STRUCTURE \<Longrightarrow> make_array z h buf = Inr a \<Longrightarrow>
   byteorder (arr_dtype a) = NotApplicable \<and> kind (arr_dtype a) = KindVoid
   \<and> field_name (arr_dtype a) = Some [if bigend h then CHR ''>'' else CHR ''<'']"
  by (drule make_array_result_dtype) (auto dest: make_array_dtype_structure)

lemma decode_item_void: "kind dt = KindVoid \<Longrightarrow> decode_item dt bs = RawItem bs"
  by (simp add: decode_item_def)

lemma make_array_structure_items:
  "dataType h = STRUCTURE \<Longrightarrow> make_array z h buf = Inr a \<Longrightarrow>
   set (arr_items a) \<subseteq> range RawItem"
proof -
  assume st: "dataType h = STRUCTURE" and a: "make_array z h buf = Inr a"
  from make_array_stages [OF a] obtain buf1 dt b ret where
    s: "make_array_dtype h buf = Inr (buf1, dt)" "np_frombuffer b dt = Inr ret"
    and r: "if vdata h \<or> section_range h = [] then a = ret
            else np_reshape ret (map range_size (section_range h)) = Inr a"
    by blast
  from make_array_dtype_structure [OF st s(1)] have "kind dt = KindVoid" by simp
  with s(2) have "set (arr_items ret) \<subseteq> range RawItem"
    by (auto simp: np_frombuffer_def decode_item_void split: if_splits)
  moreover from r have "arr_items a = arr_items ret"
    by (auto dest: np_reshape_Inr split: if_splits)
  ultimately show ?thesis by simp
qed

text \<open>
  Claim C7 at the failing input. A STRUCTURE header with rows of two bytes and the
  payload \<open>00 01 00 02\<close> is materialized once with \<open>bigend\<close> set and once with it
  unset. The code computes \<open>endian\<close> from the flag and calls \<open>newbyteorder(endian)\<close>,
  but \<open>endian\<close> was given to \<open>np.dtype\<close> as the name of the record's field, and a
  record of raw bytes has no byte order to change: in both cases the record encoding has
  no byte order and the rows are the same raw bytes; the results differ in the name of
  the field only. The claim asks for a big-endian record encoding in the first case and
  a little-endian one in the second.
\<close>

theorem structure_order_ignores_bigend:
  "make_array (\<lambda>b. None)
     \<lparr>dataType = STRUCTURE, compress = NONE, bigend = True, vdata = False,
      section_range = [\<lparr>range_size = 2\<rparr>], uncompressedSize = 0\<rparr>
     (StructBuf \<lparr>sd_data = [0, 1, 0, 2], rowLength = 2\<rparr>)
     = Inr \<lparr>arr_dtype = \<lparr>byteorder = NotApplicable, kind = KindVoid, itemsize = 2,
                          field_name = Some ''>''\<rparr>,
            arr_shape = [2], arr_items = [RawItem [0, 1], RawItem [0, 2]]\<rparr>
   \<and> make_array (\<lambda>b. None)
     \<lparr>dataType = STRUCTURE, compress = NONE, bigend = False, vdata = False,
      section_range = [\<lparr>range_size = 2\<rparr>], uncompressedSize = 0\<rparr>
     (StructBuf \<lparr>sd_data = [0, 1, 0, 2], rowLength = 2\<rparr>)
     = Inr \<lparr>arr_dtype = \<lparr>byteorder = NotApplicable, kind = KindVoid, itemsize = 2,
                          field_name = Some ''<''\<rparr>,
            arr_shape = [2], arr_items = [RawItem [0, 1], RawItem [0, 2]]\<rparr>"
  by (simp add: make_array_def make_array_dtype_def make_array_shape_def
        make_array_decompress_def np_dtype_void_field_def
        newbyteorder_def np_frombuffer_def np_reshape_def NPY_MAXDIMS_def npy_intp_max_def chunks_def
        upt_2 decode_item_def Let_def)

subsubsection \<open>Shape\<close>













subsection \<open>The outer loop\<close>

lemma read_magic_empty: "read_magic [] = ([], [])"
  by (simp add: read_magic_eq)

lemma read_ncstream_loop_end: "read_ncstream_loop C [] messages lg = Inr (messages, lg)"
  by (subst read_ncstream_loop.simps) (simp add: read_magic_empty)

lemma read_ncstream_loop_chunk:
  "fst (read_magic f) \<noteq> [] \<Longrightarrow>
   read_chunk C (fst (read_magic f)) (snd (read_magic f)) messages lg = Inr (messages1, f1, lg1) \<Longrightarrow>
   read_ncstream_loop C f messages lg = read_ncstream_loop C f1 messages1 lg1"
  by (subst read_ncstream_loop.simps) simp

lemma read_ncstream_loop_error:
  "fst (read_magic f) \<noteq> [] \<Longrightarrow>
   read_chunk C (fst (read_magic f)) (snd (read_magic f)) messages lg = Inl e \<Longrightarrow>
   read_ncstream_loop C f messages lg = Inl e"
  by (subst read_ncstream_loop.simps) simp

lemma loop_reaches_result:
  "loop_reaches C s s' \<Longrightarrow>
   read_ncstream_loop C (fst s) (fst (snd s)) (snd (snd s))
     = read_ncstream_loop C (fst s') (fst (snd s')) (snd (snd s'))"
  by (induction rule: loop_reaches.induct) (simp_all add: read_ncstream_loop_chunk)

lemma read_chunk_unknown_magic:
  "length magic \<noteq> 4 \<Longrightarrow>
   read_chunk C magic f messages lg = Inr (messages, f, lg @ [Unknown_magic magic])"
  by (auto simp: read_chunk_def MAGIC_HEADER_def MAGIC_DATA_def MAGIC_ERR_def)

lemma read_magic_fragment:
  "length frag \<le> 3 \<Longrightarrow> read_magic frag = (frag, [])"
  by (simp add: read_magic_eq)

lemma read_ncstream_loop_fragment:
  assumes "1 \<le> length frag" "length frag \<le> 3"
  shows "read_ncstream_loop C frag messages lg = Inr (messages, lg @ [Unknown_magic frag])"
proof -
  from assms have m: "read_magic frag = (frag, [])" and ne: "frag \<noteq> []" and l: "length frag \<noteq> 4"
    by (auto simp: read_magic_fragment)
  have "read_ncstream_loop C frag messages lg
        = read_ncstream_loop C [] messages (lg @ [Unknown_magic frag])"
    by (rule read_ncstream_loop_chunk) (simp_all add: m ne read_chunk_unknown_magic [OF l])
  then show ?thesis by (simp add: read_ncstream_loop_end)
qed

text \<open>
  Claim C10. When the decode has read its chunks without an error and one to three bytes
  are left, those bytes are read as a magic, which is none of the known ones: it is
  logged, nothing is appended and nothing more is read; the next magic read is empty
  and the call returns the messages accumulated so far. No error is raised. This holds
  from every state of the loop, and so for the whole call on every source from which the
  loop reaches a state with such a rest.
\<close>

theorem trailing_fragment_returns_messages:
  "1 \<le> length frag \<and> length frag \<le> 3 \<longrightarrow>
     read_magic frag = (frag, [])
   \<and> read_chunk C frag [] messages lg = Inr (messages, [], lg @ [Unknown_magic frag])
   \<and> read_magic [] = ([], [])
   \<and> read_ncstream_loop C frag messages lg = Inr (messages, lg @ [Unknown_magic frag])
   \<and> (\<forall>fobj. loop_reaches C (fobj, [], []) (frag, messages, lg) \<longrightarrow>
         read_ncstream_messages C fobj = Inr (messages, lg @ [Unknown_magic frag]))"
proof (intro impI conjI allI)
  assume a: "1 \<le> length frag \<and> length frag \<le> 3"
  then show "read_magic frag = (frag, [])" by (simp add: read_magic_fragment)
  from a have "length frag \<noteq> 4" by simp
  then show "read_chunk C frag [] messages lg = Inr (messages, [], lg @ [Unknown_magic frag])"
    by (rule read_chunk_unknown_magic)
  show "read_magic [] = ([], [])" by (rule read_magic_empty)
  from a show fr: "read_ncstream_loop C frag messages lg = Inr (messages, lg @ [Unknown_magic frag])"
    by (simp add: read_ncstream_loop_fragment)
  fix fobj
  assume "loop_reaches C (fobj, [], []) (frag, messages, lg)"
  from loop_reaches_result [OF this] fr
  show "read_ncstream_messages C fobj = Inr (messages, lg @ [Unknown_magic frag])"
    by (simp add: read_ncstream_messages_def)
qed


lemma read_chunk_header:
  assumes "read_block f = Inr (b, f1)" "Header_ParseFromString C b = Some h"
  shows "read_chunk C MAGIC_HEADER f messages lg =
     (case messages of
        [] \<Rightarrow> Inr ([HeaderMsg h], f1, lg)
      | HeaderMsg h0 # ms \<Rightarrow> Inr (HeaderMsg h # ms @ [HeaderMsg (Header_new C)], f1, lg)
      | _ \<Rightarrow> Inl AttributeError)"
  using assms
  by (cases messages) (auto simp: read_chunk_def Let_def split: message.splits)

lemma example_header_block: "read_block (2 # x # y # rest) = Inr ([x, y], rest)"
  by (simp add: read_block_def read_var_int_def fobj_read_def ssize_t_max_def Let_def)

lemma example_block1: "read_block (1 # x # rest) = Inr ([x], rest)"
  by (simp add: read_block_def read_var_int_def fobj_read_def ssize_t_max_def Let_def)

lemma example_block0: "read_block (0 # rest) = Inr ([], rest)"
  by (simp add: read_block_def read_var_int_def fobj_read_def ssize_t_max_def Let_def)

lemma read_magic_4: "read_magic (a # b # c # d # rest) = ([a, b, c, d], rest)"
  by (simp add: read_magic_eq)

lemma read_magic_known:
  "read_magic (MAGIC_HEADER @ rest) = (MAGIC_HEADER, rest)"
  "read_magic (MAGIC_DATA @ rest) = (MAGIC_DATA, rest)"
  "read_magic (MAGIC_VDATA @ rest) = (MAGIC_VDATA, rest)"
  "read_magic (MAGIC_VEND @ rest) = (MAGIC_VEND, rest)"
  "read_magic (MAGIC_ERR @ rest) = (MAGIC_ERR, rest)"
  by (simp_all add: read_magic_eq MAGIC_HEADER_def MAGIC_DATA_def
        MAGIC_VDATA_def MAGIC_VEND_def MAGIC_ERR_def)

lemma magic_distinct:
  "MAGIC_HEADER \<noteq> []" "MAGIC_DATA \<noteq> []" "MAGIC_DATA \<noteq> MAGIC_HEADER"
  "MAGIC_VDATA \<noteq> MAGIC_VEND" "MAGIC_DATA \<noteq> MAGIC_VEND"
  by (simp_all add: MAGIC_HEADER_def MAGIC_DATA_def MAGIC_VDATA_def MAGIC_VEND_def)

theorem trailing_fragment_returns_messages_witness:
  "read_ncstream_messages
     (example_collaborators
        \<lparr>dataType = BYTE, compress = NONE, bigend = False, vdata = False,
         section_range = [], uncompressedSize = 0\<rparr>)
     (MAGIC_HEADER @ [2, 7, 8] @ [0xAB, 0xEC])
   = Inr ([HeaderMsg [7, 8]], [Unknown_magic [0xAB, 0xEC]])"
proof -
  let ?C = "example_collaborators
        \<lparr>dataType = BYTE, compress = NONE, bigend = False, vdata = False,
         section_range = [], uncompressedSize = 0\<rparr>"
  have "loop_reaches ?C (MAGIC_HEADER @ [2, 7, 8] @ [0xAB, 0xEC], [], [])
          ([0xAB, 0xEC], [HeaderMsg [7, 8]], [])"
  proof (rule loop_reaches.chunk [OF _ _ loop_reaches.here])
    show "fst (read_magic (MAGIC_HEADER @ [2, 7, 8] @ [0xAB, 0xEC])) \<noteq> []"
      by (simp add: read_magic_known magic_distinct)
    have "read_chunk ?C MAGIC_HEADER ([2, 7, 8] @ [0xAB, 0xEC]) [] []
            = Inr ([HeaderMsg [7, 8]], [0xAB, 0xEC], [])"
      by (simp add: read_chunk_header [OF example_header_block] example_collaborators_def)
    then show "read_chunk ?C (fst (read_magic (MAGIC_HEADER @ [2, 7, 8] @ [0xAB, 0xEC])))
            (snd (read_magic (MAGIC_HEADER @ [2, 7, 8] @ [0xAB, 0xEC]))) [] []
          = Inr ([HeaderMsg [7, 8]], [0xAB, 0xEC], [])"
      by (simp add: read_magic_known)
  qed
  with trailing_fragment_returns_messages
    [where frag = "[0xAB, 0xEC]" and C = ?C and messages = "[HeaderMsg [7, 8]]" and lg = "[]"]
  show ?thesis by simp
qed

text \<open>
  Claim C2 at the failing input. Each HEADER chunk appends a fresh, empty Header and then
  parses the block into \<open>messages[0]\<close>, not into the Header just appended. Of two
  HEADER chunks holding \<open>AA\<close> and \<open>BB\<close> the first message ends as the Header parsed
  from \<open>BB\<close> (the content \<open>AA\<close> is overwritten) and the second stays the empty Header;
  the claim asks for the Header of \<open>AA\<close> followed by the Header of \<open>BB\<close>. When
  \<open>messages[0]\<close> is an array, as after a data chunk, the HEADER chunk raises
  AttributeError.
\<close>

theorem second_header_overwrites_first:
  "read_ncstream_messages
     (example_collaborators
        \<lparr>dataType = BYTE, compress = NONE, bigend = False, vdata = False,
         section_range = [], uncompressedSize = 0\<rparr>)
     (MAGIC_HEADER @ [1, 0xAA] @ MAGIC_HEADER @ [1, 0xBB])
   = Inr ([HeaderMsg [0xBB], HeaderMsg []], [])
   \<and> read_ncstream_messages
     (example_collaborators
        \<lparr>dataType = BYTE, compress = NONE, bigend = False, vdata = False,
         section_range = [], uncompressedSize = 0\<rparr>)
     (MAGIC_DATA @ [0] @ [1, 5] @ MAGIC_HEADER @ [1, 0xBB])
   = Inl AttributeError"
proof -
  let ?d = "\<lparr>dataType = BYTE, compress = NONE, bigend = False, vdata = False,
         section_range = [], uncompressedSize = 0\<rparr>"
  let ?C = "example_collaborators ?d"
  have p: "Header_ParseFromString ?C b = Some b" for b
    by (simp add: example_collaborators_def)
  have n: "Header_new ?C = []"
    by (simp add: example_collaborators_def)
  have dp: "Data_ParseFromString ?C b = Some ?d" for b
    by (simp add: example_collaborators_def)
  have "read_ncstream_loop ?C (MAGIC_HEADER @ [1, 0xAA] @ MAGIC_HEADER @ [1, 0xBB]) [] []
        = read_ncstream_loop ?C (MAGIC_HEADER @ [1, 0xBB]) [HeaderMsg [0xAA]] []"
    by (rule read_ncstream_loop_chunk)
       (simp_all add: read_magic_known magic_distinct read_chunk_header [OF example_block1 p])
  also have "\<dots> = read_ncstream_loop ?C [] [HeaderMsg [0xBB], HeaderMsg []] []"
    by (rule read_ncstream_loop_chunk)
       (simp_all add: read_magic_known magic_distinct read_chunk_header [OF example_block1 p] n)
  finally have 1: "read_ncstream_messages ?C (MAGIC_HEADER @ [1, 0xAA] @ MAGIC_HEADER @ [1, 0xBB])
      = Inr ([HeaderMsg [0xBB], HeaderMsg []], [])"
    by (simp add: read_ncstream_messages_def read_ncstream_loop_end)
  let ?a = "\<lparr>arr_dtype = \<lparr>byteorder = NotApplicable, kind = KindInt, itemsize = 1, field_name = None\<rparr>,
             arr_shape = [1], arr_items = [IntItem 5]\<rparr>"
  have arr: "make_array (zlib_decompress ?C) ?d (BytesBuf [5]) = Inr ?a"
    by (simp add: make_array_def make_array_dtype_def make_array_shape_def
          make_array_decompress_def data_type_to_numpy_def dtypeLookup_def np_dtype_def
          np_typestr_def has_byteorder_def order_of_char_def newbyteorder_def np_frombuffer_def chunks_def
          decode_item_def be_value_def Let_def)
  have dc: "read_data_chunk ?C ([0] @ [1, 5] @ MAGIC_HEADER @ [1, 0xBB]) [] []
        = Inr ([ArrayMsg ?a], MAGIC_HEADER @ [1, 0xBB], [])"
    by (simp add: read_data_chunk_def example_block0 dp read_array_data_def example_block1 arr
          dtypeLookup_def)
  have "read_ncstream_loop ?C (MAGIC_DATA @ [0] @ [1, 5] @ MAGIC_HEADER @ [1, 0xBB]) [] []
        = read_ncstream_loop ?C (MAGIC_HEADER @ [1, 0xBB]) [ArrayMsg ?a] []"
  proof (rule read_ncstream_loop_chunk)
    show "fst (read_magic (MAGIC_DATA @ [0] @ [1, 5] @ MAGIC_HEADER @ [1, 0xBB])) \<noteq> []"
      by (simp add: read_magic_known magic_distinct)
    have "read_chunk ?C MAGIC_DATA ([0] @ [1, 5] @ MAGIC_HEADER @ [1, 0xBB]) [] []
          = Inr ([ArrayMsg ?a], MAGIC_HEADER @ [1, 0xBB], [])"
      using dc by (simp add: read_chunk_def magic_distinct)
    then show "read_chunk ?C (fst (read_magic (MAGIC_DATA @ [0] @ [1, 5] @ MAGIC_HEADER @ [1, 0xBB])))
          (snd (read_magic (MAGIC_DATA @ [0] @ [1, 5] @ MAGIC_HEADER @ [1, 0xBB]))) [] []
        = Inr ([ArrayMsg ?a], MAGIC_HEADER @ [1, 0xBB], [])"
      by (simp add: read_magic_known)
  qed
  also have "\<dots> = Inl AttributeError"
    by (rule read_ncstream_loop_error)
       (simp_all add: read_magic_known magic_distinct read_chunk_header [OF example_block1 p])
  finally have 2: "read_ncstream_messages ?C (MAGIC_DATA @ [0] @ [1, 5] @ MAGIC_HEADER @ [1, 0xBB])
      = Inl AttributeError"
    by (simp add: read_ncstream_messages_def)
  from 1 2 show ?thesis by simp
qed


subsection \<open>The sub-loop of a sequence\<close>

lemma read_block_spec:
  "length payload \<le> ssize_t_max \<Longrightarrow>
   read_block (spec_varint_encode (length payload) @ payload @ rest) = Inr (payload, rest)"
  by (simp add: read_block_def fobj_read_def read_var_int_encode)

lemma read_magic_append: "length m = 4 \<Longrightarrow> read_magic (m @ rest) = (m, rest)"
  by (simp add: read_magic_eq)

lemma read_sequence_vend: "read_sequence C blocks MAGIC_VEND f lg = Inr (blocks, f, lg)"
  by (subst read_sequence.simps) simp

lemma read_sequence_frame:
  "magic \<noteq> MAGIC_VEND \<Longrightarrow> read_block f = Inr (b, f1) \<Longrightarrow>
   StructureData_ParseFromString C b = Some sd \<Longrightarrow>
   read_sequence C blocks magic f lg =
     read_sequence C ((blocks @ [StructureData_new C])[0 := sd])
       (fst (read_magic f1)) (snd (read_magic f1))
       (if magic = MAGIC_VDATA then lg @ [Bad_magic_for_struct_seq_data] else lg)"
  by (subst read_sequence.simps) (simp add: Let_def)

text \<open>
  On well-formed frames the sub-loop reads every frame, stops behind the VEND magic and
  leaves the rest of the source unread; every round rewrites element 0 of \<open>blocks\<close>.
\<close>

lemma read_sequence_frames:
  assumes "\<forall>(m, p)\<in>set frames.
             length m = 4 \<and> m \<noteq> MAGIC_VEND \<and> length p \<le> ssize_t_max
             \<and> StructureData_ParseFromString C p = Some (sd_of p)"
  shows "read_sequence C blocks
           (fst (read_magic (spec_frames frames @ MAGIC_VEND @ rest)))
           (snd (read_magic (spec_frames frames @ MAGIC_VEND @ rest))) lg
         = Inr (foldl (\<lambda>bs (m, p). (bs @ [StructureData_new C])[0 := sd_of p]) blocks frames,
                rest,
                lg @ map (\<lambda>_. Bad_magic_for_struct_seq_data)
                       (filter (\<lambda>(m, p). m = MAGIC_VDATA) frames))"
  using assms
proof (induction frames arbitrary: blocks lg)
  case Nil
  show ?case by (simp add: read_magic_known read_sequence_vend)
next
  case (Cons fr frames)
  obtain m p where fr: "fr = (m, p)" by (cases fr)
  from Cons.prems fr have m: "length m = 4" "m \<noteq> MAGIC_VEND"
    and len: "length p \<le> ssize_t_max"
    and p: "StructureData_ParseFromString C p = Some (sd_of p)"
    and rest: "\<forall>(m, p)\<in>set frames.
             length m = 4 \<and> m \<noteq> MAGIC_VEND \<and> length p \<le> ssize_t_max
             \<and> StructureData_ParseFromString C p = Some (sd_of p)"
    by simp_all
  let ?tail = "spec_frames frames @ MAGIC_VEND @ rest"
  have mg: "read_magic (spec_frames (fr # frames) @ MAGIC_VEND @ rest)
            = (m, spec_varint_encode (length p) @ p @ ?tail)"
    using m(1) by (simp add: fr read_magic_append)
  have bl: "read_block (spec_varint_encode (length p) @ p @ ?tail) = Inr (p, ?tail)"
    by (rule read_block_spec [OF len])
  have "read_sequence C blocks
           (fst (read_magic (spec_frames (fr # frames) @ MAGIC_VEND @ rest)))
           (snd (read_magic (spec_frames (fr # frames) @ MAGIC_VEND @ rest))) lg
        = read_sequence C ((blocks @ [StructureData_new C])[0 := sd_of p])
            (fst (read_magic ?tail)) (snd (read_magic ?tail))
            (if m = MAGIC_VDATA then lg @ [Bad_magic_for_struct_seq_data] else lg)"
    by (simp only: mg fst_conv snd_conv read_sequence_frame [OF m(2) bl p])
  also note Cons.IH [OF rest]
  finally show ?case by (simp add: fr)
qed

lemma foldl_blocks:
  "foldl (\<lambda>bs x. (bs @ [new])[0 := g x]) [] xs =
     (if xs = [] then [] else g (last xs) # replicate (length xs - 1) new)"
proof (induction xs rule: rev_induct)
  case Nil
  show ?case by simp
next
  case (snoc x xs)
  show ?case
  proof (cases "xs = []")
    case True
    then show ?thesis by simp
  next
    case False
    then obtain n where n: "length xs = Suc n" by (cases xs) simp_all
    with snoc False show ?thesis by (simp add: replicate_append_same)
  qed
qed

lemma read_sequence_data_frames:
  assumes "\<forall>(m, p)\<in>set frames.
             length m = 4 \<and> m \<noteq> MAGIC_VEND \<and> length p \<le> ssize_t_max
             \<and> StructureData_ParseFromString C p = Some (sd_of p)"
  shows "read_sequence_data C data (spec_frames frames @ MAGIC_VEND @ rest) messages lg
         = Inr (messages @
                  [StructureBlockMsg data
                     (if frames = [] then []
                      else sd_of (snd (last frames))
                             # replicate (length frames - 1) (StructureData_new C))],
                rest,
                lg @ map (\<lambda>_. Bad_magic_for_struct_seq_data)
                       (filter (\<lambda>(m, p). m = MAGIC_VDATA) frames))"
proof -
  have "foldl (\<lambda>bs (m, p). (bs @ [StructureData_new C])[0 := sd_of p]) [] frames
        = foldl (\<lambda>bs x. (bs @ [StructureData_new C])[0 := (sd_of \<circ> snd) x]) [] frames"
    by (simp add: case_prod_unfold)
  also have "\<dots> = (if frames = [] then []
                      else sd_of (snd (last frames))
                             # replicate (length frames - 1) (StructureData_new C))"
    by (simp add: foldl_blocks)
  finally show ?thesis
    by (simp add: read_sequence_data_def read_sequence_frames [OF assms])
qed


lemma read_data_chunk_sequence:
  assumes "read_block f = Inr (b, f1)" "Data_ParseFromString C b = Some data"
    "dataType data = SEQUENCE" "\<not> vdata data"
  shows "read_data_chunk C f messages lg = read_sequence_data C data f1 messages lg"
  using assms by (simp add: read_data_chunk_def dtypeLookup_def)

text \<open>
  Claim C1 at the failing input. A DATA chunk of type SEQUENCE followed by two frames
  holding \<open>AA\<close> and \<open>BB\<close> and by VEND gives one message \<open>(header, blocks)\<close> with two
  blocks, and reading stops behind VEND (the two bytes after it are left unread); but
  each round parses the block into \<open>blocks[0]\<close>, not into the StructureData just
  appended, so \<open>blocks\<close> is the StructureData of \<open>BB\<close> followed by an empty one,
  where the claim asks for that of \<open>AA\<close> followed by that of \<open>BB\<close>. It is so with
  frames under the VDATA magic (two errors logged) as under any other magic.
\<close>

theorem sequence_blocks_parsed_into_first:
  "read_ncstream_messages
     (example_collaborators
        \<lparr>dataType = SEQUENCE, compress = NONE, bigend = False, vdata = False,
         section_range = [], uncompressedSize = 0\<rparr>)
     (MAGIC_DATA @ [0] @ [0, 0, 0, 1] @ [1, 0xAA] @ [0, 0, 0, 1] @ [1, 0xBB] @ MAGIC_VEND)
   = Inr ([StructureBlockMsg
             \<lparr>dataType = SEQUENCE, compress = NONE, bigend = False, vdata = False,
              section_range = [], uncompressedSize = 0\<rparr>
             [\<lparr>sd_data = [0xBB], rowLength = 1\<rparr>, \<lparr>sd_data = [], rowLength = 0\<rparr>]],
          [])
   \<and> read_chunk
     (example_collaborators
        \<lparr>dataType = SEQUENCE, compress = NONE, bigend = False, vdata = False,
         section_range = [], uncompressedSize = 0\<rparr>)
     MAGIC_DATA
     ([0] @ MAGIC_VDATA @ [1, 0xAA] @ MAGIC_VDATA @ [1, 0xBB] @ MAGIC_VEND @ [9, 9]) [] []
   = Inr ([StructureBlockMsg
             \<lparr>dataType = SEQUENCE, compress = NONE, bigend = False, vdata = False,
              section_range = [], uncompressedSize = 0\<rparr>
             [\<lparr>sd_data = [0xBB], rowLength = 1\<rparr>, \<lparr>sd_data = [], rowLength = 0\<rparr>]],
          [9, 9],
          [Bad_magic_for_struct_seq_data, Bad_magic_for_struct_seq_data])"
proof -
  let ?d = "\<lparr>dataType = SEQUENCE, compress = NONE, bigend = False, vdata = False,
         section_range = [], uncompressedSize = 0\<rparr>"
  let ?C = "example_collaborators ?d"
  let ?sd = "\<lambda>b :: bytes. \<lparr>sd_data = b, rowLength = length b\<rparr>"
  let ?blocks = "[\<lparr>sd_data = [0xBB], rowLength = 1\<rparr>, \<lparr>sd_data = [], rowLength = 0\<rparr>]"
  have dp: "Data_ParseFromString ?C b = Some ?d" for b
    by (simp add: example_collaborators_def)
  have sp: "StructureData_ParseFromString ?C b = Some (?sd b)" for b
    by (simp add: example_collaborators_def)
  have new: "StructureData_new ?C = \<lparr>sd_data = [], rowLength = 0\<rparr>"
    by (simp add: example_collaborators_def)
  have enc1: "spec_varint_encode (Suc 0) = [1]"
    by (simp add: spec_varint_encode_last)
  have seq: "read_sequence_data ?C ?d (m @ [1, 0xAA] @ m @ [1, 0xBB] @ MAGIC_VEND @ rest) [] []
      = Inr ([StructureBlockMsg ?d ?blocks], rest,
             if m = MAGIC_VDATA
             then [Bad_magic_for_struct_seq_data, Bad_magic_for_struct_seq_data] else [])"
    if m: "length m = 4" "m \<noteq> MAGIC_VEND" for m rest
  proof -
    let ?frames = "[(m, [0xAA]), (m, [0xBB])]"
    have h: "\<forall>(m, p)\<in>set ?frames.
             length m = 4 \<and> m \<noteq> MAGIC_VEND \<and> length p \<le> ssize_t_max
             \<and> StructureData_ParseFromString ?C p = Some (?sd p)"
      using m by (simp add: sp ssize_t_max_def)
    have sf: "spec_frames ?frames @ MAGIC_VEND @ rest
          = m @ [1, 0xAA] @ m @ [1, 0xBB] @ MAGIC_VEND @ rest"
      by (simp add: enc1)
    from read_sequence_data_frames [OF h, of ?d rest "[]" "[]"]
    have "read_sequence_data ?C ?d (spec_frames ?frames @ MAGIC_VEND @ rest) [] []
      = Inr ([StructureBlockMsg ?d ?blocks], rest,
             if m = MAGIC_VDATA
             then [Bad_magic_for_struct_seq_data, Bad_magic_for_struct_seq_data] else [])"
      by (simp add: new del: spec_frames.simps)
    then show ?thesis by (simp only: sf)
  qed
  have ch: "read_chunk ?C MAGIC_DATA ([0] @ m @ [1, 0xAA] @ m @ [1, 0xBB] @ MAGIC_VEND @ rest) [] []
      = Inr ([StructureBlockMsg ?d ?blocks], rest,
             if m = MAGIC_VDATA
             then [Bad_magic_for_struct_seq_data, Bad_magic_for_struct_seq_data] else [])"
    if m: "length m = 4" "m \<noteq> MAGIC_VEND" for m rest
  proof -
    have "read_chunk ?C MAGIC_DATA ([0] @ m @ [1, 0xAA] @ m @ [1, 0xBB] @ MAGIC_VEND @ rest) [] []
          = read_data_chunk ?C ([0] @ m @ [1, 0xAA] @ m @ [1, 0xBB] @ MAGIC_VEND @ rest) [] []"
      by (simp add: read_chunk_def magic_distinct)
    also have "\<dots>
          = read_sequence_data ?C ?d (m @ [1, 0xAA] @ m @ [1, 0xBB] @ MAGIC_VEND @ rest) [] []"
      by (rule read_data_chunk_sequence [OF _ dp]) (simp_all add: example_block0)
    also have "\<dots> = Inr ([StructureBlockMsg ?d ?blocks], rest,
             if m = MAGIC_VDATA
             then [Bad_magic_for_struct_seq_data, Bad_magic_for_struct_seq_data] else [])"
      by (rule seq [OF m])
    finally show ?thesis .
  qed
  have m1: "length [0, 0, 0, 1 :: byte] = 4" "[0, 0, 0, 1] \<noteq> MAGIC_VEND"
    "[0, 0, 0, 1] \<noteq> MAGIC_VDATA"
    by (simp_all add: MAGIC_VEND_def MAGIC_VDATA_def)
  have m2: "length MAGIC_VDATA = 4" "MAGIC_VDATA \<noteq> MAGIC_VEND"
    by (simp_all add: MAGIC_VEND_def MAGIC_VDATA_def)
  have "read_ncstream_loop ?C
          (MAGIC_DATA @ [0] @ [0, 0, 0, 1] @ [1, 0xAA] @ [0, 0, 0, 1] @ [1, 0xBB] @ MAGIC_VEND) [] []
        = read_ncstream_loop ?C [] [StructureBlockMsg ?d ?blocks] []"
  proof (rule read_ncstream_loop_chunk)
    show "fst (read_magic (MAGIC_DATA @ [0] @ [0, 0, 0, 1] @ [1, 0xAA] @ [0, 0, 0, 1]
                 @ [1, 0xBB] @ MAGIC_VEND)) \<noteq> []"
      by (simp add: read_magic_known magic_distinct)
    from ch [OF m1(1,2), of "[]"] m1(3)
    show "read_chunk ?C
            (fst (read_magic (MAGIC_DATA @ [0] @ [0, 0, 0, 1] @ [1, 0xAA] @ [0, 0, 0, 1]
                    @ [1, 0xBB] @ MAGIC_VEND)))
            (snd (read_magic (MAGIC_DATA @ [0] @ [0, 0, 0, 1] @ [1, 0xAA] @ [0, 0, 0, 1]
                    @ [1, 0xBB] @ MAGIC_VEND))) [] []
          = Inr ([StructureBlockMsg ?d ?blocks], [], [])"
      by (simp add: read_magic_known)
  qed
  then have 1: "read_ncstream_messages ?C
          (MAGIC_DATA @ [0] @ [0, 0, 0, 1] @ [1, 0xAA] @ [0, 0, 0, 1] @ [1, 0xBB] @ MAGIC_VEND)
        = Inr ([StructureBlockMsg ?d ?blocks], [])"
    by (simp add: read_ncstream_messages_def read_ncstream_loop_end)
  from ch [OF m2, of "[9, 9]"]
  have 2: "read_chunk ?C MAGIC_DATA
     ([0] @ MAGIC_VDATA @ [1, 0xAA] @ MAGIC_VDATA @ [1, 0xBB] @ MAGIC_VEND @ [9, 9]) [] []
   = Inr ([StructureBlockMsg ?d ?blocks], [9, 9],
          [Bad_magic_for_struct_seq_data, Bad_magic_for_struct_seq_data])"
    by simp
  from 1 2 show ?thesis by simp
qed


end
